theory Spec2Isabelle
  imports Complex_Main
begin

section \<open>Numbers and rectangles\<close>

text \<open>
  The engine is JavaScript: every number is an IEEE binary64 double. A double is
  read as the real it denotes. Counters, list lengths and face counts, which the
  code only ever holds as non-negative integers, are naturals.

  In \<open>LightTextureAtlas\<close> every quotient, product and sum of doubles is rounded as
  the engine rounds it: \<open>binary64\<close> below is rounding to the nearest number with a
  significand of 53 bits, ties to the even significand. The exponent is not bounded
  in this reading, so overflow to \<open>Infinity\<close> and the subnormal numbers are outside
  it; it gives the engine's result for magnitudes from \<open>2 powi -1022\<close> up to
  \<open>2 powi 1024\<close>. A quotient whose divisor is zero (\<open>Infinity\<close> in the engine) is
  outside it too; HOL's \<open>x / 0 = 0\<close> is never relied on. \<open>Math.sqrt\<close> followed by
  \<open>Math.ceil\<close> is read exactly. In \<open>EnvLighting\<close> arithmetic is read as exact: at the
  sizes its layout theorems speak of, every value is an integer far below
  \<open>2 ^ 53\<close>, and the operations on them are exact in doubles.

  \<open>Vec4\<close> (math/vec4.js) is the engine's four-component vector. A rectangle is a
  \<open>Vec4\<close> read as \<open>(x, y, z, w) = (left, top, width, height)\<close>; its edges are the
  exact sums of the doubles stored.
\<close>

text \<open>The integer nearest to \<open>z\<close>, the even one of two that are equally near.\<close>

definition round_half_even :: "real \<Rightarrow> int" where
  "round_half_even z =
     (if z - of_int \<lfloor>z\<rfloor> < 1 / 2 then \<lfloor>z\<rfloor>
      else if 1 / 2 < z - of_int \<lfloor>z\<rfloor> then \<lfloor>z\<rfloor> + 1
      else if even \<lfloor>z\<rfloor> then \<lfloor>z\<rfloor> else \<lfloor>z\<rfloor> + 1)"

text \<open>
  The double nearest to \<open>x\<close>: with \<open>e\<close> the integer for which
  \<open>2 powi e \<le> |x| < 2 powi (e + 1)\<close>, the doubles around \<open>x\<close> are the multiples of
  \<open>2 powi (e - 52)\<close>.
\<close>

definition binary64 :: "real \<Rightarrow> real" where
  "binary64 x =
     (if x = 0 then 0
      else of_int (round_half_even (x / 2 powi (\<lfloor>log 2 \<bar>x\<bar>\<rfloor> - 52))) *
             2 powi (\<lfloor>log 2 \<bar>x\<bar>\<rfloor> - 52))"

datatype vec4 = Vec4 (vec_x: real) (vec_y: real) (vec_z: real) (vec_w: real)

text \<open>
  Modelled from the spec: \<open>Vec4.add\<close> is not among the sources; the spec gives the
  effect of \<open>shadowViewport.add(scissorVec)\<close> as
  \<open>x += m, y += m, width -= 2m, height -= 2m\<close> for
  \<open>scissorVec = (m, m, -2m, -2m)\<close>, the component-wise sum; each sum is a sum of
  doubles and is rounded.
\<close>

definition vec4_add :: "vec4 \<Rightarrow> vec4 \<Rightarrow> vec4" where
  "vec4_add a b =
     Vec4 (binary64 (vec_x a + vec_x b)) (binary64 (vec_y a + vec_y b))
          (binary64 (vec_z a + vec_z b)) (binary64 (vec_w a + vec_w b))"

definition rect_area :: "vec4 \<Rightarrow> real" where
  "rect_area r = vec_z r * vec_w r"

text \<open>Two rectangles overlap when their interiors share a point.\<close>

definition rect_overlap :: "vec4 \<Rightarrow> vec4 \<Rightarrow> bool" where
  "rect_overlap a b \<longleftrightarrow>
     vec_x a < vec_x b + vec_z b \<and> vec_x b < vec_x a + vec_z a \<and>
     vec_y a < vec_y b + vec_w b \<and> vec_y b < vec_y a + vec_w a"

text \<open>The point \<open>(p, q)\<close> lies in the closed rectangle \<open>r\<close>.\<close>

definition rect_contains :: "vec4 \<Rightarrow> real \<Rightarrow> real \<Rightarrow> bool" where
  "rect_contains r p q \<longleftrightarrow>
     vec_x r \<le> p \<and> p \<le> vec_x r + vec_z r \<and> vec_y r \<le> q \<and> q \<le> vec_y r + vec_w r"

text \<open>The rectangle \<open>r\<close> lies within the square \<open>[0, side] \<times> [0, side]\<close>.\<close>

definition rect_within :: "real \<Rightarrow> vec4 \<Rightarrow> bool" where
  "rect_within side r \<longleftrightarrow>
     0 \<le> vec_x r \<and> 0 \<le> vec_y r \<and> 0 \<le> vec_z r \<and> 0 \<le> vec_w r \<and>
     vec_x r + vec_z r \<le> side \<and> vec_y r + vec_w r \<le> side"

text \<open>
  \<open>inner\<close> is a rectangle, of width and height not below 0, and every edge of it
  lies strictly inside the corresponding edge of \<open>outer\<close>: all its points are
  interior points of \<open>outer\<close>.
\<close>

definition rect_strictly_inside :: "vec4 \<Rightarrow> vec4 \<Rightarrow> bool" where
  "rect_strictly_inside inner outer \<longleftrightarrow>
     0 \<le> vec_z inner \<and> 0 \<le> vec_w inner \<and>
     vec_x outer < vec_x inner \<and> vec_y outer < vec_y inner \<and>
     vec_x inner + vec_z inner < vec_x outer + vec_z outer \<and>
     vec_y inner + vec_w inner < vec_y outer + vec_w outer"

section \<open>LightTextureAtlas (scene/lighting/light-texture-atlas.js)\<close>

subsection \<open>State\<close>

text \<open>
  Modelled from the spec: \<open>ShadowMap\<close> (renderer/shadow-map.js) is not among the
  sources. A shadow map is an object with a texture of some width, the \<open>cached\<close>
  flag (taken as set on creation, so that clearing it shows) and a first render
  target with a depth and a colour buffer. \<open>atlas_id\<close> is the identity of the
  object: \<open>ShadowMap.createAtlas\<close> returns a new object on every call, numbered
  here by the count of earlier calls.
\<close>

record shadow_map =
  texture_width :: real
  cached :: bool
  atlas_id :: nat

datatype shadow_buffer = DepthBuffer nat | ColorBuffer nat

definition ShadowMap_createAtlas :: "nat \<Rightarrow> real \<Rightarrow> shadow_map" where
  "ShadowMap_createAtlas fresh resolution =
     \<lparr>texture_width = resolution, cached = True, atlas_id = fresh\<rparr>"

text \<open>
  The fields of a \<open>LightTextureAtlas\<close>. \<open>device_webgl2\<close> is the one property of the
  device the class reads; \<open>shadowAtlasTexture\<close> and \<open>shadowAtlasParams\<close> are the
  values last stored in the two scope ids \<open>allocateUniforms\<close> resolves;
  \<open>atlases_created\<close> counts the calls of \<open>ShadowMap.createAtlas\<close> made so far, and
  \<open>slots_rebuilds\<close> the times the slot list has been cleared and filled anew.
\<close>

record light_texture_atlas =
  device_webgl2 :: bool
  subdivision :: nat
  shadowMapResolution :: real
  shadowMap :: "shadow_map option"
  slots :: "vec4 list"
  shadowAtlasTexture :: "shadow_buffer option"
  shadowAtlasParams :: "real option"
  atlases_created :: nat
  slots_rebuilds :: nat

text \<open>
  The TypeErrors the modelled code can throw, named by the value that was null or
  undefined when a property of it was read.
\<close>

datatype error = TypeError_shadowMap_null | TypeError_slot_undefined | TypeError_source_undefined

subsection \<open>allocateShadowMap, destroy, updateUniforms\<close>

text \<open>
  \<open>allocateShadowMap\<close>: a new atlas is created when there is no shadow map or its
  texture has another width; the flag \<open>cached\<close> of the new one is cleared.
\<close>

definition allocateShadowMap :: "light_texture_atlas \<Rightarrow> real \<Rightarrow> light_texture_atlas" where
  "allocateShadowMap st resolution =
     (if (case shadowMap st of None \<Rightarrow> True | Some sm \<Rightarrow> texture_width sm \<noteq> resolution)
      then st\<lparr>shadowMap :=
                 Some ((ShadowMap_createAtlas (atlases_created st) resolution)\<lparr>cached := False\<rparr>),
               atlases_created := Suc (atlases_created st)\<rparr>
      else st)"

text \<open>\<open>destroy\<close> drops the shadow map, if there is one.\<close>

definition destroy :: "light_texture_atlas \<Rightarrow> light_texture_atlas" where
  "destroy st = (if shadowMap st \<noteq> None then st\<lparr>shadowMap := None\<rparr> else st)"

text \<open>
  \<open>updateUniforms\<close> reads \<open>shadowMap.renderTargets[0]\<close>; on a null shadow map that
  property access throws a TypeError.
\<close>

definition updateUniforms :: "light_texture_atlas \<Rightarrow> error + light_texture_atlas" where
  "updateUniforms st =
     (case shadowMap st of
        None \<Rightarrow> Inl TypeError_shadowMap_null
      | Some sm \<Rightarrow>
          (let isShadowFilterPcf = True;
               shadowBuffer = (if device_webgl2 st \<and> isShadowFilterPcf
                               then DepthBuffer (atlas_id sm) else ColorBuffer (atlas_id sm))
           in Inr (st\<lparr>shadowAtlasTexture := Some shadowBuffer,
                      shadowAtlasParams := Some (shadowMapResolution st)\<rparr>)))"

text \<open>
  \<open>allocateUniforms\<close> resolves the two scope ids; it stores no value in them.
\<close>

definition allocateUniforms :: "light_texture_atlas \<Rightarrow> light_texture_atlas" where
  "allocateUniforms st = st"

text \<open>The constructor, for a device whose \<open>webgl2\<close> flag is given.\<close>

definition constructor :: "bool \<Rightarrow> light_texture_atlas" where
  "constructor webgl2 =
     allocateUniforms
       (allocateShadowMap
          \<lparr>device_webgl2 = webgl2, subdivision = 0, shadowMapResolution = 2048,
           shadowMap = None, slots = [], shadowAtlasTexture = None,
           shadowAtlasParams = None, atlases_created = 0, slots_rebuilds = 0\<rparr> 1)"

subsection \<open>subdivide\<close>

text \<open>
  \<open>Math.ceil(Math.sqrt(numLights))\<close> for a light count, read exactly.
\<close>

definition Math_ceil_sqrt :: "nat \<Rightarrow> nat" where
  "Math_ceil_sqrt numLights = nat \<lceil>sqrt (real numLights)\<rceil>"

function subdivide_inner :: "real \<Rightarrow> nat \<Rightarrow> nat \<Rightarrow> nat \<Rightarrow> vec4 list \<Rightarrow> vec4 list" where
  "subdivide_inner invSize gridSize i j acc =
     (if j < gridSize
      then subdivide_inner invSize gridSize i (j + 1)
             (acc @ [Vec4 (binary64 (real i * invSize)) (binary64 (real j * invSize))
                       invSize invSize])
      else acc)"
  by pat_completeness auto
termination
  by (relation "measure (\<lambda>(invSize, gridSize, i, j, acc). gridSize - j)") auto

function subdivide_outer :: "real \<Rightarrow> nat \<Rightarrow> nat \<Rightarrow> vec4 list \<Rightarrow> vec4 list" where
  "subdivide_outer invSize gridSize i acc =
     (if i < gridSize
      then subdivide_outer invSize gridSize (i + 1) (subdivide_inner invSize gridSize i 0 acc)
      else acc)"
  by pat_completeness auto
termination
  by (relation "measure (\<lambda>(invSize, gridSize, i, acc). gridSize - i)") auto

declare subdivide_inner.simps [simp del] subdivide_outer.simps [simp del]

definition subdivide :: "light_texture_atlas \<Rightarrow> nat \<Rightarrow> light_texture_atlas" where
  "subdivide st numLights =
     (let gridSize = Math_ceil_sqrt numLights
      in if subdivision st \<noteq> gridSize
         then (let invSize = binary64 (1 / real gridSize)
               in st\<lparr>subdivision := gridSize,
                      slots := subdivide_outer invSize gridSize 0 [],
                      slots_rebuilds := Suc (slots_rebuilds st)\<rparr>)
         else st)"

text \<open>
  The grid the spec describes, in its own words: \<open>gridSize \<times> gridSize\<close> uniform
  rectangles of size \<open>(1/gridSize, 1/gridSize)\<close>, enumerated with \<open>i\<close> outermost,
  \<open>(i, j) \<mapsto> (i/gridSize, j/gridSize, 1/gridSize, 1/gridSize)\<close>. It is what
  \<open>subdivide\<close> is compared with.
\<close>

definition grid_cell :: "nat \<Rightarrow> nat \<Rightarrow> nat \<Rightarrow> vec4" where
  "grid_cell g i j = Vec4 (real i / real g) (real j / real g) (1 / real g) (1 / real g)"

definition grid_slots :: "nat \<Rightarrow> vec4 list" where
  "grid_slots g = concat (map (\<lambda>i. map (\<lambda>j. grid_cell g i j) [0..<g]) [0..<g])"

text \<open>
  The same grid with the doubles the code stores: \<open>invSize\<close> is the rounded
  quotient \<open>1 / gridSize\<close>, and \<open>i * invSize\<close> and \<open>j * invSize\<close> are rounded products.
\<close>

definition stored_cell :: "nat \<Rightarrow> nat \<Rightarrow> nat \<Rightarrow> vec4" where
  "stored_cell g i j =
     Vec4 (binary64 (real i * binary64 (1 / real g))) (binary64 (real j * binary64 (1 / real g)))
          (binary64 (1 / real g)) (binary64 (1 / real g))"

definition stored_slots :: "nat \<Rightarrow> vec4 list" where
  "stored_slots g = concat (map (\<lambda>i. map (\<lambda>j. stored_cell g i j) [0..<g]) [0..<g])"

subsection \<open>Lights\<close>

text \<open>
  Modelled from the spec: the \<open>Light\<close> class (scene/light.js) and its
  \<open>LightRenderData\<close> are not among the sources. A light carries the fields \<open>update\<close>
  reads and writes, after \<open>light_id\<close>, which stands for the identity of the object:
  \<open>visibleThisFrame\<close>, \<open>castShadows\<close>, \<open>_type\<close>, \<open>numShadowFaces\<close>
  (1 for a spot light by the spec, more for other types; kept as a field so that no
  value is presumed), the back-reference \<open>_shadowMap\<close>, and per face the render-data
  record that \<open>getRenderData(null, face)\<close> returns (created on first use), with its
  \<open>shadowViewport\<close> and \<open>shadowScissor\<close> rectangles. Lights are values here: the
  lights of one list are taken to be distinct objects.
\<close>

datatype light_type = LIGHTTYPE_DIRECTIONAL | LIGHTTYPE_OMNI | LIGHTTYPE_SPOT

record light_render_data =
  shadowViewport :: vec4
  shadowScissor :: vec4

record light =
  light_id :: nat
  visibleThisFrame :: bool
  castShadows :: bool
  priv_type :: light_type
  numShadowFaces :: nat
  priv_shadowMap :: "shadow_map option"
  renderData :: "nat \<Rightarrow> light_render_data"

subsection \<open>update\<close>

text \<open>The first loop of \<open>update\<close>: the lights that need shadows, in list order.\<close>

fun collect_lights :: "light list \<Rightarrow> light list \<Rightarrow> light list" where
  "collect_lights [] lights = lights"
| "collect_lights (light # rest) lights =
     collect_lights rest
       (if visibleThisFrame light \<and> castShadows light then lights @ [light] else lights)"

text \<open>
  The allocation step: only with at least one collected light, and with the number
  of collected lights as the argument of \<open>subdivide\<close>.
\<close>

definition update_allocate :: "light_texture_atlas \<Rightarrow> light list \<Rightarrow> light_texture_atlas" where
  "update_allocate st lights =
     (if length lights > 0
      then subdivide (allocateShadowMap st (shadowMapResolution st)) (length lights)
      else st)"

text \<open>
  \<open>scissorVec\<close>: the quotient \<open>4 / this.shadowMapResolution\<close> and the two products
  \<open>-2 * scissorOffset\<close>, each rounded.
\<close>

definition scissorVec_of :: "light_texture_atlas \<Rightarrow> vec4" where
  "scissorVec_of st =
     (let scissorOffset = binary64 (4 / shadowMapResolution st)
      in Vec4 scissorOffset scissorOffset
           (binary64 (- 2 * scissorOffset)) (binary64 (- 2 * scissorOffset)))"

text \<open>
  The body of the face loop once the slot is read: the slot is copied into both
  rectangles, then a spot light's viewport has \<open>scissorVec\<close> added.
\<close>

definition assign_slot :: "vec4 \<Rightarrow> light_type \<Rightarrow> vec4 \<Rightarrow> light_render_data \<Rightarrow> light_render_data" where
  "assign_slot scissorVec ty slot lightRenderData =
     (let copied = lightRenderData\<lparr>shadowViewport := slot, shadowScissor := slot\<rparr>
      in if ty = LIGHTTYPE_SPOT
         then copied\<lparr>shadowViewport := vec4_add (shadowViewport copied) scissorVec\<rparr>
         else copied)"

text \<open>
  The face loop. \<open>this.slots[usedCount]\<close> past the end of the list is \<open>undefined\<close>,
  and \<open>shadowViewport.copy(undefined)\<close> throws a TypeError.
\<close>

function assign_faces ::
  "light_texture_atlas \<Rightarrow> vec4 \<Rightarrow> light \<Rightarrow> nat \<Rightarrow> nat \<Rightarrow> nat \<Rightarrow> error + light \<times> nat" where
  "assign_faces st scissorVec light faceCount face usedCount =
     (if face < faceCount
      then (if usedCount < length (slots st)
            then assign_faces st scissorVec
                   (light\<lparr>renderData := (renderData light)
                            (face := assign_slot scissorVec (priv_type light)
                                       (slots st ! usedCount) (renderData light face))\<rparr>)
                   faceCount (face + 1) (usedCount + 1)
            else Inl TypeError_slot_undefined)
      else Inr (light, usedCount))"
  by pat_completeness auto
termination
  by (relation "measure (\<lambda>(st, scissorVec, light, faceCount, face, usedCount). faceCount - face)")
    auto

declare assign_faces.simps [simp del]

text \<open>The loop over the collected lights; \<open>usedCount\<close> runs through all of them.\<close>

fun assign_lights ::
  "light_texture_atlas \<Rightarrow> vec4 \<Rightarrow> light list \<Rightarrow> nat \<Rightarrow> error + light list \<times> nat" where
  "assign_lights st scissorVec [] usedCount = Inr ([], usedCount)"
| "assign_lights st scissorVec (light # rest) usedCount =
     (case assign_faces st scissorVec (light\<lparr>priv_shadowMap := shadowMap st\<rparr>)
             (numShadowFaces light) 0 usedCount of
        Inl e \<Rightarrow> Inl e
      | Inr (light', usedCount') \<Rightarrow>
          (case assign_lights st scissorVec rest usedCount' of
             Inl e \<Rightarrow> Inl e
           | Inr (rest', n) \<Rightarrow> Inr (light' # rest', n)))"

text \<open>
  \<open>update\<close>. The result is the allocator after the call, also when the call throws,
  and either the error thrown or the collected lights as the call leaves them.
  \<open>omniLights\<close> is a parameter the body never reads.
\<close>

definition update ::
  "light_texture_atlas \<Rightarrow> light list \<Rightarrow> light list \<Rightarrow> light_texture_atlas \<times> (error + light list)" where
  "update st spotLights omniLights =
     (let lights = collect_lights spotLights [];
          st1 = update_allocate st lights
      in case assign_lights st1 (scissorVec_of st1) lights 0 of
           Inl e \<Rightarrow> (st1, Inl e)
         | Inr (lights', usedCount) \<Rightarrow>
             (case updateUniforms st1 of
                Inl e \<Rightarrow> (st1, Inl e)
              | Inr st2 \<Rightarrow> (st2, Inr lights')))"

subsection \<open>Example inputs\<close>

text \<open>A spot light that casts shadows but is not visible this frame.\<close>

definition hidden_spot :: light where
  "hidden_spot = \<lparr>light_id = 0, visibleThisFrame = False, castShadows = True, priv_type = LIGHTTYPE_SPOT,
     numShadowFaces = 1, priv_shadowMap = None,
     renderData = (\<lambda>face. \<lparr>shadowViewport = Vec4 0 0 1 1, shadowScissor = Vec4 0 0 1 1\<rparr>)\<rparr>"

text \<open>A visible, shadow-casting spot light with one face.\<close>

definition spot_light :: light where
  "spot_light = \<lparr>light_id = 1, visibleThisFrame = True, castShadows = True, priv_type = LIGHTTYPE_SPOT,
     numShadowFaces = 1, priv_shadowMap = None,
     renderData = (\<lambda>face. \<lparr>shadowViewport = Vec4 0 0 1 1, shadowScissor = Vec4 0 0 1 1\<rparr>)\<rparr>"

text \<open>
  Six spot lights, five of which are collected: the second is not visible. The
  visible ones are told apart by their identities 1 to 5.
\<close>

definition five_spots :: "light list" where
  "five_spots =
     [spot_light, hidden_spot, spot_light\<lparr>light_id := 2\<rparr>, spot_light\<lparr>light_id := 3\<rparr>,
      spot_light\<lparr>light_id := 4\<rparr>, spot_light\<lparr>light_id := 5\<rparr>]"

text \<open>A visible, shadow-casting light of six faces.\<close>

definition omni_light :: light where
  "omni_light = \<lparr>light_id = 6, visibleThisFrame = True, castShadows = True, priv_type = LIGHTTYPE_OMNI,
     numShadowFaces = 6, priv_shadowMap = None,
     renderData = (\<lambda>face. \<lparr>shadowViewport = Vec4 0 0 1 1, shadowScissor = Vec4 0 0 1 1\<rparr>)\<rparr>"

subsection \<open>States in use\<close>

text \<open>
  The states an allocator passes through from its construction on, as long as
  \<open>destroy\<close> is not called: every other method may be called with any arguments, and
  the public field \<open>shadowMapResolution\<close> may be assigned. An \<open>update\<close> that throws
  leaves the state it had reached; an \<open>updateUniforms\<close> that throws changes nothing.
\<close>

inductive reachable :: "light_texture_atlas \<Rightarrow> bool" where
  reach_constructor: "reachable (constructor webgl2)"
| reach_allocateShadowMap: "reachable st \<Longrightarrow> reachable (allocateShadowMap st resolution)"
| reach_allocateUniforms: "reachable st \<Longrightarrow> reachable (allocateUniforms st)"
| reach_updateUniforms: "reachable st \<Longrightarrow> updateUniforms st = Inr st' \<Longrightarrow> reachable st'"
| reach_subdivide: "reachable st \<Longrightarrow> reachable (subdivide st numLights)"
| reach_update: "reachable st \<Longrightarrow> reachable (fst (update st spotLights omniLights))"
| reach_resolution: "reachable st \<Longrightarrow> reachable (st\<lparr>shadowMapResolution := resolution\<rparr>)"

section \<open>EnvLighting (the environment atlas layout)\<close>

subsection \<open>Data\<close>

text \<open>
  Modelled from the spec: the \<open>Texture\<close> class is not among the sources. Of a texture
  the layout reads the width only; a texture created with \<open>width: w, height: w\<close> has
  that width.
\<close>

record texture =
  tex_width :: real
  tex_height :: real

text \<open>
  \<open>calcLevels(width, height = 0)\<close>: \<open>1 + Math.floor(Math.log2(Math.max(width, height)))\<close>.
\<close>

definition calcLevels :: "real \<Rightarrow> real \<Rightarrow> int" where
  "calcLevels width height = 1 + \<lfloor>log 2 (max width height)\<rfloor>"

text \<open>
  Modelled from the spec: \<open>reprojectTexture\<close> is not among the sources; it is the
  external resampler. A call is recorded by what it is passed: which source (an index
  into \<open>sources\<close>; 0 for the one source of \<open>generateAtlas\<close>), \<open>numSamples\<close>,
  \<open>distribution\<close> and \<open>specularPower\<close> where given, the rectangle and \<open>seamPixels\<close>.
  The code passes the one mutable \<open>rect\<close> object to every call; the resampler runs
  before the next statement, so a call is recorded with the value \<open>rect\<close> has then.
\<close>

record reproject_call =
  call_source :: nat
  call_numSamples :: nat
  call_distribution :: "string option"
  call_specularPower :: "int option"
  call_rect :: vec4
  call_seamPixels :: real

text \<open>
  The options objects. An absent property, and \<open>options = null\<close>, is \<open>None\<close>.
\<close>

record atlas_options =
  opt_target :: "texture option"
  opt_size :: "real option"
  opt_numReflectionSamples :: "nat option"
  opt_numAmbientSamples :: "nat option"
  opt_distribution :: "string option"

record prefiltered_options =
  popt_target :: "texture option"
  popt_size :: "real option"
  popt_legacyAmbient :: "bool option"
  popt_numSamples :: "nat option"

text \<open>\<open>value || d\<close> for a number: \<open>undefined\<close> and 0 give the default.\<close>

definition or_default :: "'a::zero option \<Rightarrow> 'a \<Rightarrow> 'a" where
  "or_default v d = (case v of None \<Rightarrow> d | Some a \<Rightarrow> if a = 0 then d else a)"

subsection \<open>The loops\<close>

text \<open>\<open>Math.max(1, Math.floor(v * 0.5))\<close>.\<close>

definition halve_clamped :: "real \<Rightarrow> real" where
  "halve_clamped v = max 1 (of_int \<lfloor>v * 0.5\<rfloor>)"

text \<open>
  The four assignments that end the body of the mip loop, in both functions:
  \<open>rect.x += rect.w; rect.y += rect.w;\<close> then \<open>rect.z\<close> and \<open>rect.w\<close> halved. \<open>x\<close> and
  \<open>y\<close> are advanced by \<open>w\<close> as it is before the halving.
\<close>

definition mip_advance :: "vec4 \<Rightarrow> vec4" where
  "mip_advance rect =
     Vec4 (vec_x rect + vec_w rect) (vec_y rect + vec_w rect)
          (halve_clamped (vec_z rect)) (halve_clamped (vec_w rect))"

text \<open>The same for the reflection loops: \<open>rect.y += rect.w\<close>, then the halving.\<close>

definition reflection_advance :: "vec4 \<Rightarrow> vec4" where
  "reflection_advance rect =
     Vec4 (vec_x rect) (vec_y rect + vec_w rect)
          (halve_clamped (vec_z rect)) (halve_clamped (vec_w rect))"

text \<open>
  The mip loop \<open>for (let i = 0; i < levels; ++i)\<close>, the same code in both functions;
  \<open>src\<close> is the source passed (\<open>source\<close>, or \<open>sources[0]\<close>).
\<close>

function mip_loop ::
  "nat \<Rightarrow> real \<Rightarrow> nat \<Rightarrow> nat \<Rightarrow> vec4 \<Rightarrow> reproject_call list \<Rightarrow> vec4 \<times> reproject_call list" where
  "mip_loop src s levels i rect calls =
     (if i < levels
      then mip_loop src s levels (i + 1) (mip_advance rect)
             (calls @ [\<lparr>call_source = src, call_numSamples = 1, call_distribution = None,
                        call_specularPower = None, call_rect = rect, call_seamPixels = s\<rparr>])
      else (rect, calls))"
  by pat_completeness auto
termination
  by (relation "measure (\<lambda>(src, s, levels, i, rect, calls). levels - i)") auto

declare mip_loop.simps [simp del]

text \<open>
  The reflection loop of \<open>generateAtlas\<close>, \<open>for (let i = 1; i < 7; ++i)\<close>, with
  \<open>specularPower: Math.max(1, 2048 >> (i * 2))\<close>.
\<close>

function reflection_loop ::
  "real \<Rightarrow> nat \<Rightarrow> string \<Rightarrow> nat \<Rightarrow> vec4 \<Rightarrow> reproject_call list \<Rightarrow> vec4 \<times> reproject_call list" where
  "reflection_loop s numSamples distribution i rect calls =
     (if i < 7
      then reflection_loop s numSamples distribution (i + 1) (reflection_advance rect)
             (calls @ [\<lparr>call_source = 0, call_numSamples = numSamples,
                        call_distribution = Some distribution,
                        call_specularPower = Some (max 1 (drop_bit (i * 2) 2048)),
                        call_rect = rect, call_seamPixels = s\<rparr>])
      else (rect, calls))"
  by pat_completeness auto
termination
  by (relation "measure (\<lambda>(s, numSamples, distribution, i, rect, calls). 7 - i)") auto

declare reflection_loop.simps [simp del]

subsection \<open>generateAtlas\<close>

text \<open>
  The result is the atlas texture and the resampler calls in the order made.
\<close>

definition generateAtlas :: "atlas_options \<Rightarrow> texture \<times> reproject_call list" where
  "generateAtlas options =
     (let result = (case opt_target options of
                      Some target \<Rightarrow> target
                    | None \<Rightarrow> \<lparr>tex_width = or_default (opt_size options) 512,
                                tex_height = or_default (opt_size options) 512\<rparr>);
          s = tex_width result / 512;
          levels = nat (calcLevels 256 0 - calcLevels 4 0);
          (rect1, calls1) = mip_loop 0 s levels 0 (Vec4 0 0 (512 * s) (256 * s)) [];
          (rect2, calls2) = reflection_loop s (or_default (opt_numReflectionSamples options) 1024)
                              (case opt_distribution options of None \<Rightarrow> ''ggx'' | Some d \<Rightarrow> if d = [] then ''ggx'' else d)
                              1 (Vec4 0 (256 * s) (256 * s) (128 * s)) calls1;
          rect3 = Vec4 (128 * s) ((256 + 128) * s) (64 * s) (32 * s)
      in (result,
          calls2 @ [\<lparr>call_source = 0,
                      call_numSamples = or_default (opt_numAmbientSamples options) 2048,
                      call_distribution = Some ''lambert'', call_specularPower = None,
                      call_rect = rect3, call_seamPixels = s\<rparr>]))"

subsection \<open>generatePrefilteredAtlas\<close>

text \<open>
  The loop \<open>for (let i = 1; i < sources.length; ++i)\<close> that copies \<open>sources[i]\<close>.
\<close>

function copy_loop ::
  "real \<Rightarrow> nat \<Rightarrow> nat \<Rightarrow> vec4 \<Rightarrow> reproject_call list \<Rightarrow> vec4 \<times> reproject_call list" where
  "copy_loop s numSources i rect calls =
     (if i < numSources
      then copy_loop s numSources (i + 1) (reflection_advance rect)
             (calls @ [\<lparr>call_source = i, call_numSamples = 1, call_distribution = None,
                        call_specularPower = None, call_rect = rect, call_seamPixels = s\<rparr>])
      else (rect, calls))"
  by pat_completeness auto
termination
  by (relation "measure (\<lambda>(s, numSources, i, rect, calls). numSources - i)") auto

declare copy_loop.simps [simp del]

text \<open>
  \<open>sources\<close> enters by its length. \<open>sources[0].device\<close> on an empty array throws a
  TypeError. With \<open>legacyAmbient\<close> the last call is passed \<open>sources[5]\<close>, whatever
  the length.
\<close>

definition generatePrefilteredAtlas ::
  "nat \<Rightarrow> prefiltered_options \<Rightarrow> error + texture \<times> reproject_call list" where
  "generatePrefilteredAtlas numSources options =
     (if numSources = 0 then Inl TypeError_source_undefined else
      let result = (case popt_target options of
                      Some target \<Rightarrow> target
                    | None \<Rightarrow> \<lparr>tex_width = or_default (popt_size options) 512,
                                tex_height = or_default (popt_size options) 512\<rparr>);
          s = tex_width result / 512;
          levels = nat (calcLevels 512 0);
          (rect1, calls1) = mip_loop 0 s levels 0 (Vec4 0 0 (512 * s) (256 * s)) [];
          (rect2, calls2) = copy_loop s numSources 1 (Vec4 0 (256 * s) (256 * s) (128 * s)) calls1;
          rect3 = Vec4 (128 * s) ((256 + 128) * s) (64 * s) (32 * s)
      in Inr (result,
          calls2 @ [if popt_legacyAmbient options = Some True
                    then \<lparr>call_source = 5, call_numSamples = 1, call_distribution = None,
                          call_specularPower = None, call_rect = rect3, call_seamPixels = s\<rparr>
                    else \<lparr>call_source = 0,
                          call_numSamples = or_default (popt_numSamples options) 2048,
                          call_distribution = Some ''lambert'', call_specularPower = None,
                          call_rect = rect3, call_seamPixels = s\<rparr>]))"

subsection \<open>Reference values\<close>

text \<open>Every component of a rectangle multiplied by \<open>c\<close>.\<close>

definition scale_rect :: "real \<Rightarrow> vec4 \<Rightarrow> vec4" where
  "scale_rect c r = Vec4 (c * vec_x r) (c * vec_y r) (c * vec_z r) (c * vec_w r)"

text \<open>
  The 13 rectangles of the layout at the reference size 512, in the order of the
  calls: six mip levels, six reflection levels, the ambient patch. The list is what
  \<open>generateAtlas\<close> is compared with.
\<close>

definition atlas_layout_512 :: "vec4 list" where
  "atlas_layout_512 =
     [Vec4 0 0 512 256, Vec4 256 256 256 128, Vec4 384 384 128 64,
      Vec4 448 448 64 32, Vec4 480 480 32 16, Vec4 496 496 16 8,
      Vec4 0 256 256 128, Vec4 0 384 128 64, Vec4 0 448 64 32,
      Vec4 0 480 32 16, Vec4 0 496 16 8, Vec4 0 504 8 4,
      Vec4 128 384 64 32]"

text \<open>\<open>generateAtlas(source)\<close> without options: every option is absent.\<close>

definition no_options :: atlas_options where
  "no_options = \<lparr>opt_target = None, opt_size = None, opt_numReflectionSamples = None,
     opt_numAmbientSamples = None, opt_distribution = None\<rparr>"

text \<open>\<open>generatePrefilteredAtlas(sources)\<close> without options.\<close>

definition no_prefiltered_options :: prefiltered_options where
  "no_prefiltered_options = \<lparr>popt_target = None, popt_size = None, popt_legacyAmbient = None,
     popt_numSamples = None\<rparr>"

text \<open>
  The step of the mip loop in the words of the spec: \<open>x += width\<close>,
  \<open>y += width\<close>, then both dimensions halved, floored and clamped to 1. It is what
  the step of the code is compared with.
\<close>

definition width_advance :: "vec4 \<Rightarrow> vec4" where
  "width_advance rect =
     Vec4 (vec_x rect + vec_z rect) (vec_y rect + vec_z rect)
          (max 1 (of_int \<lfloor>vec_z rect * 0.5\<rfloor>)) (max 1 (of_int \<lfloor>vec_w rect * 0.5\<rfloor>))"

text \<open>The factor \<open>s = result.width / 512\<close> of \<open>generateAtlas\<close>, from the options.\<close>

definition atlas_scale :: "atlas_options \<Rightarrow> real" where
  "atlas_scale options =
     tex_width (case opt_target options of Some target \<Rightarrow> target
                | None \<Rightarrow> \<lparr>tex_width = or_default (opt_size options) 512,
                            tex_height = or_default (opt_size options) 512\<rparr>) / 512"

text \<open>The factor \<open>s = result.width / 512\<close> of \<open>generatePrefilteredAtlas\<close>.\<close>

definition prefiltered_scale :: "prefiltered_options \<Rightarrow> real" where
  "prefiltered_scale options =
     tex_width (case popt_target options of Some target \<Rightarrow> target
                | None \<Rightarrow> \<lparr>tex_width = or_default (popt_size options) 512,
                            tex_height = or_default (popt_size options) 512\<rparr>) / 512"

text \<open>What a call passes besides its rectangle and seam hint.\<close>

definition call_parameters :: "reproject_call \<Rightarrow> nat \<times> nat \<times> string option \<times> int option" where
  "call_parameters c = (call_source c, call_numSamples c, call_distribution c, call_specularPower c)"

section \<open>Properties of binary64\<close>

lemma round_half_even_of_int [simp]: "round_half_even (of_int n) = n"
  by (simp add: round_half_even_def)

lemma round_half_even_error: "\<bar>of_int (round_half_even z) - z\<bar> \<le> 1 / 2"
  unfolding round_half_even_def by (auto simp: abs_if) linarith+

lemma floor_log2_eqI:
  assumes "0 < x" and "2 powi e \<le> x" and "x < 2 powi (e + 1)"
  shows "\<lfloor>log 2 x\<rfloor> = e"
proof -
  have "(2::real) powr of_int e = 2 powi e"
    by (simp add: powr_real_of_int')
  moreover have "(2::real) powr (of_int e + 1) = 2 powi (e + 1)"
    using powr_real_of_int' [of 2 "e + 1"] by simp
  ultimately have "2 powr (of_int e) \<le> x \<and> x < 2 powr (of_int e + 1)"
    using assms by simp
  with assms(1) show ?thesis by (simp add: floor_log_eq_powr_iff)
qed

lemma floor_log2_bounds:
  assumes "0 < x"
  shows "2 powi \<lfloor>log 2 x\<rfloor> \<le> x \<and> x < 2 powi (\<lfloor>log 2 x\<rfloor> + 1)"
proof -
  have "2 powr (of_int \<lfloor>log 2 x\<rfloor>) \<le> x \<and> x < 2 powr (of_int \<lfloor>log 2 x\<rfloor> + 1)"
    using assms floor_log_eq_powr_iff [of x 2 "\<lfloor>log 2 x\<rfloor>"] by simp
  moreover have "(2::real) powr of_int \<lfloor>log 2 x\<rfloor> = 2 powi \<lfloor>log 2 x\<rfloor>"
    by (simp add: powr_real_of_int')
  moreover have "(2::real) powr (of_int \<lfloor>log 2 x\<rfloor> + 1) = 2 powi (\<lfloor>log 2 x\<rfloor> + 1)"
    using powr_real_of_int' [of 2 "\<lfloor>log 2 x\<rfloor> + 1"] by simp
  ultimately show ?thesis by simp
qed

lemma binary64_at:
  assumes "0 < \<bar>x\<bar>" and "2 powi e \<le> \<bar>x\<bar>" and "\<bar>x\<bar> < 2 powi (e + 1)"
  shows "binary64 x = of_int (round_half_even (x / 2 powi (e - 52))) * 2 powi (e - 52)"
proof -
  have "\<lfloor>log 2 \<bar>x\<bar>\<rfloor> = e" using assms by (rule floor_log2_eqI)
  moreover have "x \<noteq> 0" using assms(1) by auto
  ultimately show ?thesis by (simp add: binary64_def)
qed

lemma binary64_error:
  "\<bar>binary64 x - x\<bar> \<le> \<bar>x\<bar> * 2 powi (- 53)"
proof (cases "x = 0")
  case True
  then show ?thesis by (simp add: binary64_def)
next
  case False
  define e where "e = \<lfloor>log 2 \<bar>x\<bar>\<rfloor>"
  define q :: real where "q = 2 powi (e - 52)"
  have q: "0 < q" by (simp add: q_def)
  have pos: "0 < \<bar>x\<bar>" using False by simp
  have lo: "2 powi e \<le> \<bar>x\<bar>" unfolding e_def using floor_log2_bounds [OF pos] by simp
  have b: "binary64 x = of_int (round_half_even (x / q)) * q"
    using False by (simp add: binary64_def e_def q_def)
  have "binary64 x - x = (of_int (round_half_even (x / q)) - x / q) * q"
    using q by (simp add: b field_simps)
  then have "\<bar>binary64 x - x\<bar> = \<bar>of_int (round_half_even (x / q)) - x / q\<bar> * q"
    using q by (simp add: abs_mult)
  also have "\<dots> \<le> 1 / 2 * q"
    using round_half_even_error [of "x / q"] q by (intro mult_right_mono) simp_all
  also have "1 / 2 * q = 2 powi e * 2 powi (- 53)"
    by (simp add: q_def power_int_diff power_int_minus)
  also have "\<dots> \<le> \<bar>x\<bar> * 2 powi (- 53)"
    using lo by (intro mult_right_mono) simp_all
  finally show ?thesis .
qed

lemma binary64_pos: "0 < x \<Longrightarrow> 0 < binary64 x"
proof -
  assume x: "0 < x"
  have "(2::real) powi (- 53) < 1" by (simp add: power_int_minus field_simps)
  then have "x * 2 powi (- 53) < x" using x by simp
  with binary64_error [of x] x show ?thesis by (simp add: abs_if split: if_splits)
qed

lemma binary64_zero [simp]: "binary64 0 = 0"
  by (simp add: binary64_def)

lemma log2_powi: "log 2 (2 powi k) = of_int k"
proof -
  have "(2::real) powi k = 2 powr of_int k" by (simp add: powr_real_of_int')
  then show ?thesis by simp
qed

lemma binary64_exact:
  assumes "\<bar>m\<bar> < 2 ^ 53"
  shows "binary64 (of_int m * 2 powi k) = of_int m * 2 powi k"
proof (cases "m = 0")
  case True
  then show ?thesis by simp
next
  case False
  define n where "n = \<lfloor>log 2 \<bar>real_of_int m\<bar>\<rfloor>"
  have mpos: "0 < \<bar>real_of_int m\<bar>" using False by simp
  have one: "1 \<le> \<bar>real_of_int m\<bar>" using False by (simp add: abs_if)
  have lt: "\<bar>real_of_int m\<bar> < 2 ^ 53"
  proof -
    have "real_of_int \<bar>m\<bar> < real_of_int (2 ^ 53)" using assms by (simp only: of_int_less_iff)
    then show ?thesis by simp
  qed
  have n0: "0 \<le> n"
  proof -
    have "0 \<le> log 2 \<bar>real_of_int m\<bar>" using one by simp
    then show ?thesis by (simp add: n_def)
  qed
  have n52: "n \<le> 52"
  proof -
    have "log 2 \<bar>real_of_int m\<bar> < 53"
      using lt mpos by (simp add: log_less_iff)
    then have "\<lfloor>log 2 \<bar>real_of_int m\<bar>\<rfloor> < 53" by (simp add: floor_less_iff)
    then show ?thesis by (simp add: n_def)
  qed
  let ?x = "of_int m * (2::real) powi k"
  have xne: "?x \<noteq> 0" using False by simp
  have absx: "\<bar>?x\<bar> = \<bar>real_of_int m\<bar> * 2 powi k" by (simp add: abs_mult)
  have "log 2 \<bar>?x\<bar> = log 2 \<bar>real_of_int m\<bar> + of_int k"
    unfolding absx using mpos by (simp add: log_mult log2_powi)
  then have e: "\<lfloor>log 2 \<bar>?x\<bar>\<rfloor> = n + k" by (simp add: n_def)
  have "?x / 2 powi (n + k - 52) = of_int m * 2 powi (52 - n)"
  proof -
    have "(2::real) powi k / 2 powi (n + k - 52) = 2 powi (k - (n + k - 52))"
      by (rule power_int_diff [symmetric]) simp
    also have "k - (n + k - 52) = 52 - n" by simp
    finally have r: "(2::real) powi k / 2 powi (n + k - 52) = 2 powi (52 - n)" .
    have "?x / 2 powi (n + k - 52) = of_int m * (2 powi k / 2 powi (n + k - 52))"
      by (simp only: times_divide_eq_right)
    then show ?thesis by (simp only: r)
  qed
  also have "(2::real) powi (52 - n) = of_int (2 ^ nat (52 - n))"
    using n52 by (simp add: power_int_def)
  finally have z: "?x / 2 powi (n + k - 52) = of_int (m * 2 ^ nat (52 - n))" by simp
  have "binary64 ?x = of_int (m * 2 ^ nat (52 - n)) * 2 powi (n + k - 52)"
    using xne by (simp only: binary64_def e z round_half_even_of_int if_False)
  also have "\<dots> = of_int m * (2 powi (52 - n) * 2 powi (n + k - 52))"
    using n52 by (simp add: power_int_def)
  also have "(2::real) powi (52 - n) * 2 powi (n + k - 52) = 2 powi k"
    by (simp add: power_int_add [symmetric])
  finally show ?thesis .
qed

lemma binary64_representable:
  "\<exists>m k. \<bar>m\<bar> < 2 ^ 53 \<and> binary64 x = of_int m * 2 powi k"
proof (cases "x = 0")
  case True
  then show ?thesis by (intro exI [of _ 0]) simp
next
  case False
  define e where "e = \<lfloor>log 2 \<bar>x\<bar>\<rfloor>"
  define q :: real where "q = 2 powi (e - 52)"
  define r where "r = round_half_even (x / q)"
  have q: "0 < q" by (simp add: q_def)
  have pos: "0 < \<bar>x\<bar>" using False by simp
  have hi: "\<bar>x\<bar> < 2 powi (e + 1)" unfolding e_def using floor_log2_bounds [OF pos] by simp
  have b: "binary64 x = of_int r * q"
    using False by (simp add: binary64_def e_def q_def r_def)
  have "(2::real) powi (e + 1) = 2 ^ 53 * q"
  proof -
    have "(2::real) powi (e + 1) = 2 powi 53 * 2 powi (e - 52)"
      by (subst power_int_add [symmetric]) (simp_all add: add.commute)
    then show ?thesis by (simp add: q_def)
  qed
  then have "\<bar>x\<bar> / q < 2 ^ 53" using hi q by (simp add: divide_less_eq)
  then have z: "\<bar>x / q\<bar> < 2 ^ 53" using q by (simp add: abs_divide)
  have "\<bar>real_of_int r\<bar> \<le> \<bar>x / q\<bar> + 1 / 2"
    using round_half_even_error [of "x / q"] unfolding r_def by linarith
  with z have "\<bar>real_of_int r\<bar> < real_of_int (2 ^ 53 + 1)" by simp
  then have "\<bar>r\<bar> < 2 ^ 53 + 1" by (simp only: of_int_abs [symmetric] of_int_less_iff)
  then have r: "\<bar>r\<bar> \<le> 2 ^ 53" by simp
  show ?thesis
  proof (cases "\<bar>r\<bar> < 2 ^ 53")
    case True
    with b show ?thesis unfolding q_def by blast
  next
    case False
    with r have "\<bar>r\<bar> = 2 ^ 53" by simp
    then have "r = 2 ^ 53 \<or> r = - (2 ^ 53)" by (simp add: abs_if split: if_splits)
    then have "of_int r * q = of_int (r div 2 ^ 53) * (2 ^ 53 * q) \<and> \<bar>r div 2 ^ 53\<bar> < 2 ^ 53"
      by auto
    moreover have "(2::real) ^ 53 * q = 2 powi (e + 1)"
      using \<open>2 powi (e + 1) = 2 ^ 53 * q\<close> by simp
    ultimately show ?thesis using b by metis
  qed
qed

lemma binary64_idem: "binary64 (binary64 x) = binary64 x"
  using binary64_representable [of x] binary64_exact by metis

lemma binary64_neg_double: "binary64 (- 2 * binary64 x) = - 2 * binary64 x"
proof -
  obtain m k where m: "\<bar>m\<bar> < 2 ^ 53" and b: "binary64 x = of_int m * 2 powi k"
    using binary64_representable by blast
  have "- 2 * binary64 x = of_int (- m) * 2 powi (k + 1)"
    by (simp add: b power_int_add)
  moreover have "\<bar>- m\<bar> < 2 ^ 53" using m by simp
  ultimately show ?thesis using binary64_exact [of "- m" "k + 1"] by simp
qed

lemma binary64_of_int: "\<bar>m\<bar> < 2 ^ 53 \<Longrightarrow> binary64 (of_int m) = of_int m"
  using binary64_exact [of m 0] by simp

lemma binary64_one [simp]: "binary64 1 = 1"
  using binary64_of_int [of 1] by simp

lemma binary64_of_nat: "n < 2 ^ 53 \<Longrightarrow> binary64 (real n) = real n"
proof -
  assume "n < 2 ^ 53"
  then have "\<bar>int n\<bar> < 2 ^ 53" by (simp add: nat_less_iff [symmetric] nat_power_eq)
  from binary64_of_int [OF this] show ?thesis by simp
qed

lemma binary64_nonneg: "0 \<le> x \<Longrightarrow> 0 \<le> binary64 x"
  using binary64_pos [of x] by (cases "x = 0") (simp_all add: less_imp_le)

lemma binary64_upper: "0 \<le> x \<Longrightarrow> binary64 x \<le> x * (1 + 2 powi (- 53))"
  using binary64_error [of x] by (simp add: algebra_simps abs_if split: if_splits)

lemma binary64_lower: "0 \<le> x \<Longrightarrow> x * (1 - 2 powi (- 53)) \<le> binary64 x"
  using binary64_error [of x] by (simp add: algebra_simps abs_if split: if_splits)

section \<open>Properties of subdivide\<close>

lemma subdivide_subdivision: "subdivision (subdivide st n) = Math_ceil_sqrt n"
  by (simp add: subdivide_def Let_def)

lemma Math_ceil_sqrt_eqI:
  assumes "k * k < n" and "n \<le> Suc k * Suc k"
  shows "Math_ceil_sqrt n = Suc k"
proof -
  have lo: "real k < sqrt (real n)"
  proof (rule real_less_rsqrt)
    have "real (k * k) < real n" using assms(1) by (simp only: of_nat_less_iff)
    then show "(real k)\<^sup>2 < real n" by (simp add: power2_eq_square)
  qed
  have hi: "sqrt (real n) \<le> real (Suc k)"
  proof (rule real_le_lsqrt)
    have "real n \<le> real (Suc k * Suc k)" using assms(2) by (simp only: of_nat_le_iff)
    then show "real n \<le> (real (Suc k))\<^sup>2" by (simp only: power2_eq_square of_nat_mult)
  qed simp_all
  have "\<lceil>sqrt (real n)\<rceil> = int (Suc k)"
    by (rule ceiling_unique) (use lo hi in simp_all)
  then show ?thesis by (simp add: Math_ceil_sqrt_def)
qed

lemma Math_ceil_sqrt_pos: "0 < n \<Longrightarrow> 0 < Math_ceil_sqrt n"
  by (simp add: Math_ceil_sqrt_def)

lemma subdivide_inner_eq:
  "subdivide_inner invSize gridSize i j acc =
     acc @ map (\<lambda>j. Vec4 (binary64 (real i * invSize)) (binary64 (real j * invSize))
                      invSize invSize) [j..<gridSize]"
proof (induction invSize gridSize i j acc rule: subdivide_inner.induct)
  case (1 invSize gridSize i j acc)
  show ?case
  proof (cases "j < gridSize")
    case True
    then have "subdivide_inner invSize gridSize i j acc =
        subdivide_inner invSize gridSize i (j + 1)
             (acc @ [Vec4 (binary64 (real i * invSize)) (binary64 (real j * invSize))
                       invSize invSize])"
      by (subst subdivide_inner.simps) simp
    also have "\<dots> = (acc @ [Vec4 (binary64 (real i * invSize)) (binary64 (real j * invSize))
                              invSize invSize]) @
        map (\<lambda>j. Vec4 (binary64 (real i * invSize)) (binary64 (real j * invSize))
                   invSize invSize) [j + 1..<gridSize]"
      using True by (rule "1.IH")
    also have "\<dots> = acc @ map (\<lambda>j. Vec4 (binary64 (real i * invSize))
        (binary64 (real j * invSize)) invSize invSize) [j..<gridSize]"
      using True by (simp add: upt_conv_Cons)
    finally show ?thesis .
  next
    case False
    then show ?thesis by (subst subdivide_inner.simps) simp
  qed
qed

lemma subdivide_outer_eq:
  "subdivide_outer invSize gridSize i acc =
     acc @ concat (map (\<lambda>i. map (\<lambda>j. Vec4 (binary64 (real i * invSize))
                                        (binary64 (real j * invSize)) invSize invSize)
                               [0..<gridSize]) [i..<gridSize])"
proof (induction invSize gridSize i acc rule: subdivide_outer.induct)
  case (1 invSize gridSize i acc)
  show ?case
  proof (cases "i < gridSize")
    case True
    then have "subdivide_outer invSize gridSize i acc =
        subdivide_outer invSize gridSize (i + 1) (subdivide_inner invSize gridSize i 0 acc)"
      by (subst subdivide_outer.simps) simp
    also have "\<dots> = subdivide_inner invSize gridSize i 0 acc @
        concat (map (\<lambda>i. map (\<lambda>j. Vec4 (binary64 (real i * invSize))
                                     (binary64 (real j * invSize)) invSize invSize)
                               [0..<gridSize]) [i + 1..<gridSize])"
      using True by (rule "1.IH")
    also have "\<dots> = acc @ concat (map (\<lambda>i. map (\<lambda>j. Vec4 (binary64 (real i * invSize))
                                     (binary64 (real j * invSize)) invSize invSize)
                               [0..<gridSize]) [i..<gridSize])"
      using True by (simp add: upt_conv_Cons subdivide_inner_eq)
    finally show ?thesis .
  next
    case False
    then show ?thesis by (subst subdivide_outer.simps) simp
  qed
qed

lemma subdivide_outer_stored:
  "subdivide_outer (binary64 (1 / real g)) g 0 [] = stored_slots g"
  by (simp add: subdivide_outer_eq stored_slots_def stored_cell_def)

lemma concat_uniform_nth:
  "\<forall>xs \<in> set xss. length xs = n \<Longrightarrow> i < length xss \<Longrightarrow> j < n \<Longrightarrow>
     concat xss ! (i * n + j) = xss ! i ! j"
proof (induction xss arbitrary: i)
  case Nil
  then show ?case by simp
next
  case (Cons xs xss)
  show ?case
  proof (cases i)
    case 0
    with Cons.prems show ?thesis by (simp add: nth_append)
  next
    case (Suc i')
    with Cons.prems have "concat xss ! (i' * n + j) = xss ! i' ! j"
      by (intro Cons.IH) auto
    with Suc Cons.prems show ?thesis by (simp add: nth_append)
  qed
qed

lemma concat_uniform_length:
  "\<forall>xs \<in> set xss. length xs = n \<Longrightarrow> length (concat xss) = length xss * n"
  by (induction xss) auto

lemma grid_slots_length: "length (grid_slots g) = g * g"
  by (simp add: grid_slots_def concat_uniform_length [where n = g])

lemma grid_slots_nth:
  assumes "i < g" and "j < g"
  shows "grid_slots g ! (i * g + j) = grid_cell g i j"
proof -
  have "grid_slots g ! (i * g + j) = map (\<lambda>i. map (\<lambda>j. grid_cell g i j) [0..<g]) [0..<g] ! i ! j"
    unfolding grid_slots_def using assms by (intro concat_uniform_nth) auto
  with assms show ?thesis by simp
qed

lemma grid_slots_nth_divmod:
  assumes "k < g * g"
  shows "grid_slots g ! k = grid_cell g (k div g) (k mod g)"
proof -
  from assms have g: "0 < g" by (cases g) auto
  have "k div g < g" using assms g by (simp add: less_mult_imp_div_less)
  moreover have "k mod g < g" using g by simp
  ultimately have "grid_slots g ! (k div g * g + k mod g) = grid_cell g (k div g) (k mod g)"
    by (rule grid_slots_nth)
  then show ?thesis by simp
qed

lemma grid_slots_set: "set (grid_slots g) = {grid_cell g i j | i j. i < g \<and> j < g}"
  unfolding grid_slots_def by auto blast

lemma grid_cell_overlap:
  assumes "0 < g"
  shows "rect_overlap (grid_cell g i j) (grid_cell g i' j') \<longleftrightarrow> i = i' \<and> j = j'"
proof -
  have g: "0 < real g" using assms by simp
  have "rect_overlap (grid_cell g i j) (grid_cell g i' j') \<longleftrightarrow>
      real i < real i' + 1 \<and> real i' < real i + 1 \<and> real j < real j' + 1 \<and> real j' < real j + 1"
    using g by (simp add: rect_overlap_def grid_cell_def add_divide_distrib [symmetric] divide_less_cancel)
  also have "\<dots> \<longleftrightarrow> i = i' \<and> j = j'" by auto
  finally show ?thesis .
qed

lemma grid_slots_no_overlap:
  assumes "a < g * g" and "b < g * g" and "a \<noteq> b"
  shows "\<not> rect_overlap (grid_slots g ! a) (grid_slots g ! b)"
proof -
  from assms have g: "0 < g" by (cases g) auto
  have "a div g \<noteq> b div g \<or> a mod g \<noteq> b mod g"
    using assms(3) by (metis div_mult_mod_eq)
  then show ?thesis
    using assms g by (simp add: grid_slots_nth_divmod grid_cell_overlap)
qed

lemma grid_cell_within: "i < g \<Longrightarrow> j < g \<Longrightarrow> rect_within 1 (grid_cell g i j)"
  by (simp add: rect_within_def grid_cell_def add_divide_distrib [symmetric])

lemma grid_cell_area: "rect_area (grid_cell g i j) = 1 / (real g * real g)"
  by (simp add: rect_area_def grid_cell_def)

lemma sum_list_const: "\<forall>x \<in> set xs. f x = c \<Longrightarrow> sum_list (map f xs) = real (length xs) * c"
  by (induction xs) (auto simp: algebra_simps)

lemma grid_slots_area:
  assumes "0 < g"
  shows "sum_list (map rect_area (grid_slots g)) = 1"
proof -
  have "\<forall>r \<in> set (grid_slots g). rect_area r = 1 / (real g * real g)"
    by (auto simp: grid_slots_set grid_cell_area)
  then have "sum_list (map rect_area (grid_slots g)) = real (length (grid_slots g)) * (1 / (real g * real g))"
    by (rule sum_list_const)
  with assms show ?thesis by (simp add: grid_slots_length)
qed

lemma unit_interval_cell:
  assumes "0 < g" and "0 \<le> p" and "p \<le> 1"
  shows "\<exists>i < g. real i / real g \<le> p \<and> p \<le> real i / real g + 1 / real g"
proof (cases "p < 1")
  case True
  define i where "i = nat \<lfloor>p * real g\<rfloor>"
  have g: "0 < real g" using assms by simp
  have nonneg: "0 \<le> p * real g" using assms by simp
  then have fl: "real i = of_int \<lfloor>p * real g\<rfloor>" by (simp add: i_def)
  have lo: "real i \<le> p * real g" unfolding fl by (rule of_int_floor_le)
  have hi: "p * real g < real i + 1" unfolding fl by linarith
  have "p * real g < real g" using True g by simp
  with lo have "real i < real g" by linarith
  then have "i < g" by simp
  moreover have "real i / real g \<le> p" using lo g by (simp add: divide_le_eq)
  moreover have "p \<le> real i / real g + 1 / real g"
    using hi g by (simp add: add_divide_distrib [symmetric] le_divide_eq)
  ultimately show ?thesis by blast
next
  case False
  with assms have p: "p = 1" by simp
  obtain i where i: "g = Suc i" using assms(1) by (cases g) auto
  have "real i / real g + 1 / real g = 1" using i by (simp add: add_divide_distrib [symmetric])
  moreover have "real i / real g \<le> 1" using i by simp
  ultimately show ?thesis using p i by (intro exI [of _ i]) simp
qed

lemma grid_slots_cover:
  assumes "0 < g" and "0 \<le> p" and "p \<le> 1" and "0 \<le> q" and "q \<le> 1"
  shows "\<exists>r \<in> set (grid_slots g). rect_contains r p q"
proof -
  obtain i where i: "i < g" "real i / real g \<le> p" "p \<le> real i / real g + 1 / real g"
    using unit_interval_cell [OF assms(1-3)] by blast
  obtain j where j: "j < g" "real j / real g \<le> q" "q \<le> real j / real g + 1 / real g"
    using unit_interval_cell [OF assms(1) assms(4,5)] by blast
  have "grid_cell g i j \<in> set (grid_slots g)" using i(1) j(1) by (auto simp: grid_slots_set)
  moreover have "rect_contains (grid_cell g i j) p q"
    using i j by (simp add: rect_contains_def grid_cell_def)
  ultimately show ?thesis by blast
qed

lemma stored_slots_length: "length (stored_slots g) = g * g"
  by (simp add: stored_slots_def concat_uniform_length [where n = g])

lemma stored_slots_nth:
  assumes "i < g" and "j < g"
  shows "stored_slots g ! (i * g + j) = stored_cell g i j"
proof -
  have "stored_slots g ! (i * g + j) =
      map (\<lambda>i. map (\<lambda>j. stored_cell g i j) [0..<g]) [0..<g] ! i ! j"
    unfolding stored_slots_def using assms by (intro concat_uniform_nth) auto
  with assms show ?thesis by simp
qed

lemma stored_slots_nth_divmod:
  assumes "k < g * g"
  shows "stored_slots g ! k = stored_cell g (k div g) (k mod g)"
proof -
  from assms have g: "0 < g" by (cases g) auto
  have "k div g < g" using assms g by (simp add: less_mult_imp_div_less)
  moreover have "k mod g < g" using g by simp
  ultimately have "stored_slots g ! (k div g * g + k mod g) = stored_cell g (k div g) (k mod g)"
    by (rule stored_slots_nth)
  then show ?thesis by simp
qed

lemma stored_slots_set: "set (stored_slots g) = {stored_cell g i j | i j. i < g \<and> j < g}"
  unfolding stored_slots_def by auto blast

text \<open>
  With a power of two for the grid size nothing is rounded: the quotient is a power
  of two and the products are integers times it.
\<close>

lemma binary64_inverse_pow2: "binary64 (1 / 2 ^ k) = 1 / 2 ^ k"
proof -
  have "(1::real) / 2 ^ k = of_int 1 * 2 powi (- int k)"
    by (simp add: power_int_minus field_simps)
  moreover have "binary64 (of_int 1 * 2 powi (- int k)) = of_int 1 * 2 powi (- int k)"
    by (rule binary64_exact) simp
  ultimately show ?thesis by simp
qed

lemma binary64_nat_over_pow2:
  assumes "i < 2 ^ 53"
  shows "binary64 (real i / 2 ^ k) = real i / 2 ^ k"
proof -
  have e: "real i / 2 ^ k = of_int (int i) * 2 powi (- int k)"
    by (simp add: power_int_minus field_simps)
  have "\<bar>int i\<bar> < 2 ^ 53" using assms by (simp add: nat_less_iff [symmetric] nat_power_eq)
  from binary64_exact [OF this, of "- int k"] show ?thesis
    unfolding e [symmetric] by simp
qed

lemma stored_cell_pow2:
  assumes "k \<le> 53" and "i < 2 ^ k" and "j < 2 ^ k"
  shows "stored_cell (2 ^ k) i j = grid_cell (2 ^ k) i j"
proof -
  have "(2::nat) ^ k \<le> 2 ^ 53" using assms(1) by (intro power_increasing) simp_all
  then have "i < 2 ^ 53" "j < 2 ^ 53" using assms(2,3) by simp_all
  then show ?thesis
    by (simp add: stored_cell_def grid_cell_def binary64_inverse_pow2 binary64_nat_over_pow2)
qed

lemma stored_slots_pow2:
  assumes "k \<le> 53"
  shows "stored_slots (2 ^ k) = grid_slots (2 ^ k)"
proof (rule nth_equalityI)
  show "length (stored_slots (2 ^ k)) = length (grid_slots (2 ^ k))"
    by (simp add: stored_slots_length grid_slots_length)
next
  fix a
  assume "a < length (stored_slots (2 ^ k))"
  then have a: "a < 2 ^ k * 2 ^ k" by (simp add: stored_slots_length)
  then have "a div 2 ^ k < 2 ^ k" by (simp add: less_mult_imp_div_less)
  moreover have "a mod 2 ^ k < (2::nat) ^ k" by simp
  ultimately show "stored_slots (2 ^ k) ! a = grid_slots (2 ^ k) ! a"
    using a assms by (simp add: stored_slots_nth_divmod grid_slots_nth_divmod stored_cell_pow2)
qed

lemma subdivide_rebuilds:
  "subdivision st \<noteq> Math_ceil_sqrt n \<Longrightarrow>
     slots (subdivide st n) = stored_slots (Math_ceil_sqrt n)"
  by (simp add: subdivide_def Let_def subdivide_outer_stored)


text \<open>
  C1, as amended. For a positive light count, \<open>subdivide\<close> leaves
  \<open>ceil(sqrt(numLights))\<close> as the subdivision \<open>g\<close>; and when that differs from the
  stored subdivision, the slot list is rebuilt as \<open>g\<^sup>2\<close> rectangles, the one at index
  \<open>i * g + j\<close> being \<open>(i * inv, j * inv, inv, inv)\<close> with \<open>inv\<close> the double nearest to
  \<open>1 / g\<close> and each product rounded to a double. When \<open>g\<close> is a power of two (up to
  \<open>2 ^ 53\<close>) nothing is rounded: the rectangles are \<open>(i/g, j/g, 1/g, 1/g)\<close>, no two of
  them overlap, all lie within the unit square, every point of the unit square lies
  in one of them, and their areas sum to 1.
\<close>

theorem subdivide_grid:
  assumes "0 < numLights" and "after = subdivide st numLights" and "g = subdivision after"
  shows "g = nat \<lceil>sqrt (real numLights)\<rceil> \<and>
    (subdivision st \<noteq> g \<longrightarrow>
       length (slots after) = g * g \<and>
       (\<forall>i < g. \<forall>j < g.
          slots after ! (i * g + j) =
            Vec4 (binary64 (real i * binary64 (1 / real g)))
                 (binary64 (real j * binary64 (1 / real g)))
                 (binary64 (1 / real g)) (binary64 (1 / real g))) \<and>
       (\<forall>k \<le> 53. g = 2 ^ k \<longrightarrow>
          (\<forall>i < g. \<forall>j < g.
             slots after ! (i * g + j) =
               Vec4 (real i / real g) (real j / real g) (1 / real g) (1 / real g)) \<and>
          (\<forall>a < length (slots after). \<forall>b < length (slots after).
             a \<noteq> b \<longrightarrow> \<not> rect_overlap (slots after ! a) (slots after ! b)) \<and>
          (\<forall>r \<in> set (slots after). rect_within 1 r) \<and>
          (\<forall>p q. 0 \<le> p \<and> p \<le> 1 \<and> 0 \<le> q \<and> q \<le> 1 \<longrightarrow>
             (\<exists>r \<in> set (slots after). rect_contains r p q)) \<and>
          sum_list (map rect_area (slots after)) = 1))"
proof -
  have g: "g = Math_ceil_sqrt numLights"
    by (simp add: assms(2,3) subdivide_subdivision)
  have g_eq: "g = nat \<lceil>sqrt (real numLights)\<rceil>" by (simp add: g Math_ceil_sqrt_def)
  have g_pos: "0 < g" unfolding g using assms(1) by (rule Math_ceil_sqrt_pos)
  have stored: "slots after = stored_slots g" if "subdivision st \<noteq> g"
    using that unfolding g assms(2) by (rule subdivide_rebuilds)
  have idx: "\<forall>i < g. \<forall>j < g. stored_slots g ! (i * g + j) =
      Vec4 (binary64 (real i * binary64 (1 / real g)))
           (binary64 (real j * binary64 (1 / real g)))
           (binary64 (1 / real g)) (binary64 (1 / real g))"
    by (simp add: stored_slots_nth stored_cell_def)
  have exact: "stored_slots g = grid_slots g" if "k \<le> 53" "g = 2 ^ k" for k
    using stored_slots_pow2 [OF that(1)] that(2) by simp
  have gidx: "\<forall>i < g. \<forall>j < g. grid_slots g ! (i * g + j) =
      Vec4 (real i / real g) (real j / real g) (1 / real g) (1 / real g)"
    by (simp add: grid_slots_nth grid_cell_def)
  have disj: "\<forall>a < length (grid_slots g). \<forall>b < length (grid_slots g).
      a \<noteq> b \<longrightarrow> \<not> rect_overlap (grid_slots g ! a) (grid_slots g ! b)"
    by (simp add: grid_slots_length grid_slots_no_overlap)
  have within: "\<forall>r \<in> set (grid_slots g). rect_within 1 r"
    by (auto simp: grid_slots_set grid_cell_within)
  have cover: "\<forall>p q. 0 \<le> p \<and> p \<le> 1 \<and> 0 \<le> q \<and> q \<le> 1 \<longrightarrow>
      (\<exists>r \<in> set (grid_slots g). rect_contains r p q)"
    using g_pos by (simp add: grid_slots_cover)
  have area: "sum_list (map rect_area (grid_slots g)) = 1"
    using g_pos by (rule grid_slots_area)
  have pow2: "(\<forall>i < g. \<forall>j < g.
             slots after ! (i * g + j) =
               Vec4 (real i / real g) (real j / real g) (1 / real g) (1 / real g)) \<and>
          (\<forall>a < length (slots after). \<forall>b < length (slots after).
             a \<noteq> b \<longrightarrow> \<not> rect_overlap (slots after ! a) (slots after ! b)) \<and>
          (\<forall>r \<in> set (slots after). rect_within 1 r) \<and>
          (\<forall>p q. 0 \<le> p \<and> p \<le> 1 \<and> 0 \<le> q \<and> q \<le> 1 \<longrightarrow>
             (\<exists>r \<in> set (slots after). rect_contains r p q)) \<and>
          sum_list (map rect_area (slots after)) = 1"
    if ne: "subdivision st \<noteq> g" and k: "k \<le> 53" "g = 2 ^ k" for k
  proof -
    have eq: "slots after = grid_slots g"
      using stored [OF ne] exact [OF k] by simp
    from gidx disj within cover area show ?thesis
      unfolding eq by (intro conjI)
  qed
  have second: "length (slots after) = g * g \<and>
       (\<forall>i < g. \<forall>j < g.
          slots after ! (i * g + j) =
            Vec4 (binary64 (real i * binary64 (1 / real g)))
                 (binary64 (real j * binary64 (1 / real g)))
                 (binary64 (1 / real g)) (binary64 (1 / real g))) \<and>
       (\<forall>k \<le> 53. g = 2 ^ k \<longrightarrow>
          (\<forall>i < g. \<forall>j < g.
             slots after ! (i * g + j) =
               Vec4 (real i / real g) (real j / real g) (1 / real g) (1 / real g)) \<and>
          (\<forall>a < length (slots after). \<forall>b < length (slots after).
             a \<noteq> b \<longrightarrow> \<not> rect_overlap (slots after ! a) (slots after ! b)) \<and>
          (\<forall>r \<in> set (slots after). rect_within 1 r) \<and>
          (\<forall>p q. 0 \<le> p \<and> p \<le> 1 \<and> 0 \<le> q \<and> q \<le> 1 \<longrightarrow>
             (\<exists>r \<in> set (slots after). rect_contains r p q)) \<and>
          sum_list (map rect_area (slots after)) = 1)"
    if ne: "subdivision st \<noteq> g"
  proof -
    have l: "length (slots after) = g * g" by (simp add: stored [OF ne] stored_slots_length)
    have c: "\<forall>i < g. \<forall>j < g.
          slots after ! (i * g + j) =
            Vec4 (binary64 (real i * binary64 (1 / real g)))
                 (binary64 (real j * binary64 (1 / real g)))
                 (binary64 (1 / real g)) (binary64 (1 / real g))"
      using idx unfolding stored [OF ne] .
    from l c pow2 [OF ne] show ?thesis by blast
  qed
  from g_eq second show ?thesis by blast
qed

lemma Math_ceil_sqrt_3: "Math_ceil_sqrt 3 = 2"
proof -
  have "Math_ceil_sqrt 3 = Suc 1" by (rule Math_ceil_sqrt_eqI) simp_all
  then show ?thesis by simp
qed

lemma Math_ceil_sqrt_5: "Math_ceil_sqrt 5 = 3"
proof -
  have "Math_ceil_sqrt 5 = Suc 2" by (rule Math_ceil_sqrt_eqI) simp_all
  then show ?thesis by simp
qed

lemma Math_ceil_sqrt_17: "Math_ceil_sqrt 17 = 5"
proof -
  have "Math_ceil_sqrt 17 = Suc 4" by (rule Math_ceil_sqrt_eqI) simp_all
  then show ?thesis by simp
qed

lemma constructor_subdivision: "subdivision (constructor w) = 0"
  by (simp add: constructor_def allocateUniforms_def allocateShadowMap_def)

theorem subdivide_grid_witness:
  "subdivision (subdivide (constructor True) 3) = 2 \<and>
   length (slots (subdivide (constructor True) 3)) = 4 \<and>
   slots (subdivide (constructor True) 3) ! 1 = Vec4 0 (1 / 2) (1 / 2) (1 / 2) \<and>
   slots (subdivide (constructor True) 3) ! 2 = Vec4 (1 / 2) 0 (1 / 2) (1 / 2) \<and>
   \<not> rect_overlap (slots (subdivide (constructor True) 3) ! 1)
        (slots (subdivide (constructor True) 3) ! 2) \<and>
   sum_list (map rect_area (slots (subdivide (constructor True) 3))) = 1"
proof -
  define after where "after = subdivide (constructor True) 3"
  have sub: "subdivision after = 2"
    by (simp add: after_def subdivide_subdivision Math_ceil_sqrt_3)
  have pos: "(0::nat) < 3" by simp
  have ne: "subdivision (constructor True) \<noteq> 2" by (simp add: constructor_subdivision)
  note main = subdivide_grid [OF pos after_def sub [symmetric]]
  note facts = main [THEN conjunct2, THEN mp, OF ne]
  have len: "length (slots after) = 4"
    using facts [THEN conjunct1] by simp
  have k: "(1::nat) \<le> 53" "(2::nat) = 2 ^ 1" by simp_all
  note exact = facts [THEN conjunct2, THEN conjunct2, THEN spec, of 1, THEN mp, OF k(1),
      THEN mp, OF k(2)]
  have "slots after ! (0 * 2 + 1) = Vec4 (real 0 / real 2) (real 1 / real 2) (1 / real 2) (1 / real 2)"
    using exact [THEN conjunct1, THEN spec, of 0, THEN mp, THEN spec, of 1, THEN mp] by simp
  then have c1: "slots after ! 1 = Vec4 0 (1 / 2) (1 / 2) (1 / 2)" by simp
  have "slots after ! (1 * 2 + 0) = Vec4 (real 1 / real 2) (real 0 / real 2) (1 / real 2) (1 / real 2)"
    using exact [THEN conjunct1, THEN spec, of 1, THEN mp, THEN spec, of 0, THEN mp] by simp
  then have c2: "slots after ! 2 = Vec4 (1 / 2) 0 (1 / 2) (1 / 2)" by simp
  have apart: "\<not> rect_overlap (slots after ! 1) (slots after ! 2)"
    using exact [THEN conjunct2, THEN conjunct1, THEN spec, of 1, THEN mp, THEN spec, of 2,
        THEN mp, THEN mp] len by simp
  have area: "sum_list (map rect_area (slots after)) = 1"
    using exact by blast
  from sub len c1 c2 apart area show ?thesis unfolding after_def by blast
qed

lemma binary64_fifth: "binary64 (1 / 5) = 3602879701896397 / 2 ^ 54"
proof -
  have "binary64 (1 / 5) =
      of_int (round_half_even ((1 / 5) / 2 powi (- 3 - 52))) * 2 powi (- 3 - 52)"
    by (rule binary64_at) (simp_all add: power_int_minus)
  also have "\<dots> = 3602879701896397 / 2 ^ 54"
    by (simp add: round_half_even_def power_int_minus)
  finally show ?thesis .
qed

lemma binary64_three_fifths:
  "binary64 (3 * (3602879701896397 / 2 ^ 54)) = 5404319552844596 / 2 ^ 53"
proof -
  have "binary64 (3 * (3602879701896397 / 2 ^ 54)) =
      of_int (round_half_even ((3 * (3602879701896397 / 2 ^ 54)) / 2 powi (- 1 - 52))) *
        2 powi (- 1 - 52)"
    by (rule binary64_at) (simp_all add: power_int_minus)
  also have "\<dots> = 5404319552844596 / 2 ^ 53"
    by (simp add: round_half_even_def power_int_minus)
  finally show ?thesis .
qed

lemma binary64_four_fifths:
  "binary64 (4 * (3602879701896397 / 2 ^ 54)) = 14411518807585588 / 2 ^ 54"
proof -
  have "binary64 (4 * (3602879701896397 / 2 ^ 54)) =
      of_int (round_half_even ((4 * (3602879701896397 / 2 ^ 54)) / 2 powi (- 1 - 52))) *
        2 powi (- 1 - 52)"
    by (rule binary64_at) (simp_all add: power_int_minus)
  also have "\<dots> = 14411518807585588 / 2 ^ 54"
    by (simp add: round_half_even_def power_int_minus)
  finally show ?thesis .
qed

text \<open>
  The claim of C1 as stated fails for 17 lights, grid size 5: the double nearest to
  \<open>1 / 5\<close> lies above \<open>1 / 5\<close>, and \<open>3 * (1 / 5)\<close> is rounded up to
  \<open>0.6000000000000001\<close>. The right edge of slot 15, cell \<open>(3, 0)\<close>, lies \<open>2 powi -54\<close>
  beyond the left edge of slot 20, cell \<open>(4, 0)\<close>, so the two overlap; and slot 24,
  cell \<open>(4, 4)\<close>, reaches beyond the unit square.
\<close>

theorem subdivide_grid_rounding_counterexample:
  "subdivision (subdivide (constructor True) 17) = 5 \<and>
   slots (subdivide (constructor True) 17) ! 15 =
     Vec4 (5404319552844596 / 2 ^ 53) 0 (3602879701896397 / 2 ^ 54) (3602879701896397 / 2 ^ 54) \<and>
   slots (subdivide (constructor True) 17) ! 20 =
     Vec4 (14411518807585588 / 2 ^ 54) 0 (3602879701896397 / 2 ^ 54) (3602879701896397 / 2 ^ 54) \<and>
   rect_overlap (slots (subdivide (constructor True) 17) ! 15)
     (slots (subdivide (constructor True) 17) ! 20) \<and>
   \<not> rect_within 1 (slots (subdivide (constructor True) 17) ! 24)"
proof -
  have ne: "subdivision (constructor True) \<noteq> Math_ceil_sqrt 17"
    by (simp add: constructor_subdivision Math_ceil_sqrt_17)
  have st: "slots (subdivide (constructor True) 17) = stored_slots 5"
    using subdivide_rebuilds [OF ne] by (simp add: Math_ceil_sqrt_17)
  have s15: "stored_slots 5 ! 15 =
     Vec4 (5404319552844596 / 2 ^ 53) 0 (3602879701896397 / 2 ^ 54) (3602879701896397 / 2 ^ 54)"
    using stored_slots_nth [of 3 5 0] binary64_fifth binary64_three_fifths
    by (simp add: stored_cell_def)
  have s20: "stored_slots 5 ! 20 =
     Vec4 (14411518807585588 / 2 ^ 54) 0 (3602879701896397 / 2 ^ 54) (3602879701896397 / 2 ^ 54)"
    using stored_slots_nth [of 4 5 0] binary64_fifth binary64_four_fifths
    by (simp add: stored_cell_def)
  have s24: "stored_slots 5 ! 24 =
     Vec4 (14411518807585588 / 2 ^ 54) (14411518807585588 / 2 ^ 54)
          (3602879701896397 / 2 ^ 54) (3602879701896397 / 2 ^ 54)"
    using stored_slots_nth [of 4 5 4] binary64_fifth binary64_four_fifths
    by (simp add: stored_cell_def)
  have over: "rect_overlap (stored_slots 5 ! 15) (stored_slots 5 ! 20)"
    unfolding s15 s20 by (simp add: rect_overlap_def)
  have out: "\<not> rect_within 1 (stored_slots 5 ! 24)"
    unfolding s24 by (simp add: rect_within_def)
  show ?thesis
    unfolding st using s15 s20 over out
    by (simp add: subdivide_subdivision Math_ceil_sqrt_17)
qed

text \<open>
  C8. A call of \<open>subdivide\<close> whose grid size is the stored subdivision changes
  nothing: the state is returned as it is, whatever its slot list holds, and the
  slot list is not cleared (\<open>slots_rebuilds\<close> stays). So of two successive calls whose
  light counts give the same grid size, the second leaves the slot list untouched.
\<close>

theorem subdivide_same_grid_idle:
  "(subdivision st = Math_ceil_sqrt n \<longrightarrow> subdivide st n = st) \<and>
   (Math_ceil_sqrt n2 = Math_ceil_sqrt n1 \<longrightarrow>
      subdivide (subdivide st n1) n2 = subdivide st n1 \<and>
      slots (subdivide (subdivide st n1) n2) = slots (subdivide st n1) \<and>
      slots_rebuilds (subdivide (subdivide st n1) n2) = slots_rebuilds (subdivide st n1))"
  by (simp add: subdivide_def Let_def)

theorem subdivide_same_grid_idle_witness:
  "Math_ceil_sqrt 7 = Math_ceil_sqrt 5 \<and>
   subdivide (subdivide (constructor True) 5) 7 = subdivide (constructor True) 5 \<and>
   slots_rebuilds (subdivide (constructor True) 5) = 1 \<and>
   slots_rebuilds (subdivide (subdivide (constructor True) 5) 7) = 1 \<and>
   subdivision ((constructor True)\<lparr>subdivision := 3, slots := [Vec4 9 9 9 9]\<rparr>) = Math_ceil_sqrt 5 \<and>
   slots (subdivide ((constructor True)\<lparr>subdivision := 3, slots := [Vec4 9 9 9 9]\<rparr>) 5) =
     [Vec4 9 9 9 9]"
proof -
  have "Math_ceil_sqrt 7 = Suc 2" by (rule Math_ceil_sqrt_eqI) simp_all
  then have h: "Math_ceil_sqrt 7 = Math_ceil_sqrt 5" by (simp add: Math_ceil_sqrt_5)
  have r1: "slots_rebuilds (subdivide (constructor True) 5) = 1"
    by (simp add: subdivide_def Let_def Math_ceil_sqrt_5 constructor_def allocateUniforms_def
        allocateShadowMap_def)
  have g: "subdivision ((constructor True)\<lparr>subdivision := 3, slots := [Vec4 9 9 9 9]\<rparr>) =
      Math_ceil_sqrt 5"
    by (simp add: Math_ceil_sqrt_5)
  note twice = subdivide_same_grid_idle
    [where st = "constructor True" and n = 5 and ?n1.0 = 5 and ?n2.0 = 7,
      THEN conjunct2, THEN mp, OF h]
  note kept = subdivide_same_grid_idle
    [where st = "(constructor True)\<lparr>subdivision := 3, slots := [Vec4 9 9 9 9]\<rparr>" and n = 5
      and ?n1.0 = 5 and ?n2.0 = 7, THEN conjunct1, THEN mp, OF g]
  have k: "slots (subdivide ((constructor True)\<lparr>subdivision := 3, slots := [Vec4 9 9 9 9]\<rparr>) 5) =
     [Vec4 9 9 9 9]"
    by (simp only: kept) simp
  from h twice r1 g k show ?thesis by simp
qed

section \<open>Properties of update\<close>

lemma collect_lights_filter:
  "collect_lights spotLights acc =
     acc @ filter (\<lambda>light. visibleThisFrame light \<and> castShadows light) spotLights"
  by (induction spotLights arbitrary: acc) auto

lemma assign_faces_done:
  "\<not> face < faceCount \<Longrightarrow>
     assign_faces st scissorVec light faceCount face usedCount = Inr (light, usedCount)"
  by (subst assign_faces.simps) simp

lemma assign_faces_step:
  "face < faceCount \<Longrightarrow> usedCount < length (slots st) \<Longrightarrow>
     assign_faces st scissorVec light faceCount face usedCount =
       assign_faces st scissorVec
         (light\<lparr>renderData := (renderData light)
            (face := assign_slot scissorVec (priv_type light)
                       (slots st ! usedCount) (renderData light face))\<rparr>)
         faceCount (face + 1) (usedCount + 1)"
  by (subst assign_faces.simps) simp

lemma assign_faces_throw:
  "face < faceCount \<Longrightarrow> \<not> usedCount < length (slots st) \<Longrightarrow>
     assign_faces st scissorVec light faceCount face usedCount = Inl TypeError_slot_undefined"
  by (subst assign_faces.simps) simp

lemma assign_faces_fit:
  "face \<le> faceCount \<Longrightarrow> usedCount + (faceCount - face) \<le> length (slots st) \<Longrightarrow>
     assign_faces st scissorVec light faceCount face usedCount =
       Inr (light\<lparr>renderData := (\<lambda>k. if face \<le> k \<and> k < faceCount
                then assign_slot scissorVec (priv_type light)
                       (slots st ! (usedCount + (k - face))) (renderData light k)
                else renderData light k)\<rparr>,
            usedCount + (faceCount - face))"
proof (induction st scissorVec light faceCount face usedCount rule: assign_faces.induct)
  case (1 st scissorVec light faceCount face usedCount)
  show ?case
  proof (cases "face < faceCount")
    case False
    with "1.prems" have eq: "face = faceCount" by simp
    have none: "\<And>k. (faceCount \<le> k \<and> k < faceCount) = False" by auto
    show ?thesis using eq by (simp add: assign_faces_done none)
  next
    case True
    with "1.prems" have used: "usedCount < length (slots st)" by simp
    let ?light1 = "light\<lparr>renderData := (renderData light)
            (face := assign_slot scissorVec (priv_type light)
                       (slots st ! usedCount) (renderData light face))\<rparr>"
    have "assign_faces st scissorVec ?light1 faceCount (face + 1) (usedCount + 1) =
       Inr (?light1\<lparr>renderData := (\<lambda>k. if face + 1 \<le> k \<and> k < faceCount
                then assign_slot scissorVec (priv_type ?light1)
                       (slots st ! (usedCount + 1 + (k - (face + 1)))) (renderData ?light1 k)
                else renderData ?light1 k)\<rparr>,
            usedCount + 1 + (faceCount - (face + 1)))"
      using True used "1.prems" by (intro "1.IH") simp_all
    moreover have "(\<lambda>k. if face + 1 \<le> k \<and> k < faceCount
                then assign_slot scissorVec (priv_type ?light1)
                       (slots st ! (usedCount + 1 + (k - (face + 1)))) (renderData ?light1 k)
                else renderData ?light1 k) =
          (\<lambda>k. if face \<le> k \<and> k < faceCount
                then assign_slot scissorVec (priv_type light)
                       (slots st ! (usedCount + (k - face))) (renderData light k)
                else renderData light k)"
    proof
      fix k
      show "(if face + 1 \<le> k \<and> k < faceCount
                then assign_slot scissorVec (priv_type ?light1)
                       (slots st ! (usedCount + 1 + (k - (face + 1)))) (renderData ?light1 k)
                else renderData ?light1 k) =
          (if face \<le> k \<and> k < faceCount
                then assign_slot scissorVec (priv_type light)
                       (slots st ! (usedCount + (k - face))) (renderData light k)
                else renderData light k)"
      proof (cases "k = face")
        case True
        with \<open>face < faceCount\<close> show ?thesis by simp
      next
        case False
        then have "face + 1 \<le> k \<longleftrightarrow> face \<le> k" by auto
        moreover have "face + 1 \<le> k \<Longrightarrow> usedCount + 1 + (k - (face + 1)) = usedCount + (k - face)"
          by simp
        ultimately show ?thesis using False by auto
      qed
    qed
    ultimately show ?thesis
      using True used by (simp add: assign_faces_step)
  qed
qed

lemma assign_lights_fit:
  "usedCount + sum_list (map numShadowFaces lights) \<le> length (slots st) \<Longrightarrow>
   \<exists>lights'. assign_lights st scissorVec lights usedCount =
       Inr (lights', usedCount + sum_list (map numShadowFaces lights)) \<and>
     length lights' = length lights \<and>
     (\<forall>i < length lights.
        lights' ! i = (lights ! i)
          \<lparr>priv_shadowMap := shadowMap st,
           renderData := (\<lambda>k. if k < numShadowFaces (lights ! i)
              then assign_slot scissorVec (priv_type (lights ! i))
                     (slots st ! (usedCount + sum_list (map numShadowFaces (take i lights)) + k))
                     (renderData (lights ! i) k)
              else renderData (lights ! i) k)\<rparr>)"
proof (induction lights arbitrary: usedCount)
  case Nil
  then show ?case by simp
next
  case (Cons light rest)
  let ?n = "numShadowFaces light"
  let ?light' = "light\<lparr>priv_shadowMap := shadowMap st,
           renderData := (\<lambda>k. if k < ?n
              then assign_slot scissorVec (priv_type light) (slots st ! (usedCount + k))
                     (renderData light k)
              else renderData light k)\<rparr>"
  have fits: "usedCount + (?n - 0) \<le> length (slots st)" using Cons.prems by simp
  have first: "assign_faces st scissorVec (light\<lparr>priv_shadowMap := shadowMap st\<rparr>) ?n 0 usedCount =
      Inr (?light', usedCount + ?n)"
    using assign_faces_fit [OF le0 fits, of scissorVec "light\<lparr>priv_shadowMap := shadowMap st\<rparr>"]
    by (simp cong: if_cong)
  have "usedCount + ?n + sum_list (map numShadowFaces rest) \<le> length (slots st)"
    using Cons.prems by simp
  from Cons.IH [OF this] obtain rest' where
    r1: "assign_lights st scissorVec rest (usedCount + ?n) =
       Inr (rest', usedCount + ?n + sum_list (map numShadowFaces rest))" and
    r2: "length rest' = length rest" and
    r3: "\<forall>i < length rest.
        rest' ! i = (rest ! i)
          \<lparr>priv_shadowMap := shadowMap st,
           renderData := (\<lambda>k. if k < numShadowFaces (rest ! i)
              then assign_slot scissorVec (priv_type (rest ! i))
                     (slots st ! (usedCount + ?n + sum_list (map numShadowFaces (take i rest)) + k))
                     (renderData (rest ! i) k)
              else renderData (rest ! i) k)\<rparr>"
    by blast
  have res: "assign_lights st scissorVec (light # rest) usedCount =
      Inr (?light' # rest', usedCount + sum_list (map numShadowFaces (light # rest)))"
    using first r1 by (simp add: add.assoc)
  have each: "(?light' # rest') ! i = ((light # rest) ! i)
          \<lparr>priv_shadowMap := shadowMap st,
           renderData := (\<lambda>k. if k < numShadowFaces ((light # rest) ! i)
              then assign_slot scissorVec (priv_type ((light # rest) ! i))
                     (slots st ! (usedCount + sum_list (map numShadowFaces (take i (light # rest))) + k))
                     (renderData ((light # rest) ! i) k)
              else renderData ((light # rest) ! i) k)\<rparr>"
    if "i < length (light # rest)" for i
  proof (cases i)
    case 0
    then show ?thesis by (simp cong: if_cong)
  next
    case (Suc i')
    with that have "i' < length rest" by simp
    with r3 Suc show ?thesis by (simp add: add.assoc cong: if_cong)
  qed
  show ?case
    using res r2 each by (intro exI [of _ "?light' # rest'"]) simp
qed

lemma assign_faces_short:
  "face < faceCount \<Longrightarrow> length (slots st) < usedCount + (faceCount - face) \<Longrightarrow>
     assign_faces st scissorVec light faceCount face usedCount = Inl TypeError_slot_undefined"
proof (induction st scissorVec light faceCount face usedCount rule: assign_faces.induct)
  case (1 st scissorVec light faceCount face usedCount)
  show ?case
  proof (cases "usedCount < length (slots st)")
    case False
    with "1.prems" show ?thesis by (simp add: assign_faces_throw)
  next
    case True
    with "1.prems" have more: "face + 1 < faceCount" by simp
    have "assign_faces st scissorVec
         (light\<lparr>renderData := (renderData light)
            (face := assign_slot scissorVec (priv_type light)
                       (slots st ! usedCount) (renderData light face))\<rparr>)
         faceCount (face + 1) (usedCount + 1) = Inl TypeError_slot_undefined"
      using "1.prems" True more by (intro "1.IH") simp_all
    with "1.prems" True show ?thesis by (simp add: assign_faces_step)
  qed
qed

lemma assign_faces_Inr:
  assumes "assign_faces st scissorVec light faceCount 0 usedCount = Inr (light', n)"
  shows "n = usedCount + faceCount \<and>
     (0 < faceCount \<longrightarrow> usedCount + faceCount \<le> length (slots st)) \<and>
     light' = light\<lparr>renderData := (\<lambda>k. if k < faceCount
                then assign_slot scissorVec (priv_type light)
                       (slots st ! (usedCount + k)) (renderData light k)
                else renderData light k)\<rparr>"
proof (cases "0 < faceCount \<and> length (slots st) < usedCount + faceCount")
  case True
  then have "assign_faces st scissorVec light faceCount 0 usedCount = Inl TypeError_slot_undefined"
    by (intro assign_faces_short) simp_all
  with assms show ?thesis by simp
next
  case False
  show ?thesis
  proof (cases "faceCount = 0")
    case True
    with assms show ?thesis by (simp add: assign_faces_done)
  next
    case nz: False
    with False have fits: "usedCount + (faceCount - 0) \<le> length (slots st)" by simp
    show ?thesis
      using assms assign_faces_fit [OF le0 fits, of scissorVec light] nz fits
      by (auto cong: if_cong)
  qed
qed

lemma assign_lights_Inr:
  "assign_lights st scissorVec lights usedCount = Inr (lights', n) \<Longrightarrow>
     n = usedCount + sum_list (map numShadowFaces lights) \<and>
     length lights' = length lights \<and>
     (\<forall>i < length lights.
        (0 < numShadowFaces (lights ! i) \<longrightarrow>
           usedCount + sum_list (map numShadowFaces (take (Suc i) lights)) \<le> length (slots st)) \<and>
        lights' ! i = (lights ! i)
          \<lparr>priv_shadowMap := shadowMap st,
           renderData := (\<lambda>k. if k < numShadowFaces (lights ! i)
              then assign_slot scissorVec (priv_type (lights ! i))
                     (slots st ! (usedCount + sum_list (map numShadowFaces (take i lights)) + k))
                     (renderData (lights ! i) k)
              else renderData (lights ! i) k)\<rparr>)"
proof (induction lights arbitrary: usedCount lights')
  case Nil
  then show ?case by simp
next
  case (Cons light rest)
  let ?n = "numShadowFaces light"
  from Cons.prems obtain light' u' rest' where
    f: "assign_faces st scissorVec (light\<lparr>priv_shadowMap := shadowMap st\<rparr>) ?n 0 usedCount =
          Inr (light', u')" and
    r: "assign_lights st scissorVec rest u' = Inr (rest', n)" and
    l: "lights' = light' # rest'"
    by (auto split: sum.splits prod.splits)
  from assign_faces_Inr [OF f] have
    u': "u' = usedCount + ?n" and
    fit: "0 < ?n \<longrightarrow> usedCount + ?n \<le> length (slots st)" and
    light': "light' = light\<lparr>priv_shadowMap := shadowMap st,
           renderData := (\<lambda>k. if k < ?n
              then assign_slot scissorVec (priv_type light) (slots st ! (usedCount + k))
                     (renderData light k)
              else renderData light k)\<rparr>"
    by (simp_all cong: if_cong)
  note ih = Cons.IH [OF r]
  have each: "(0 < numShadowFaces ((light # rest) ! i) \<longrightarrow>
           usedCount + sum_list (map numShadowFaces (take (Suc i) (light # rest))) \<le> length (slots st)) \<and>
        (light' # rest') ! i = ((light # rest) ! i)
          \<lparr>priv_shadowMap := shadowMap st,
           renderData := (\<lambda>k. if k < numShadowFaces ((light # rest) ! i)
              then assign_slot scissorVec (priv_type ((light # rest) ! i))
                     (slots st ! (usedCount + sum_list (map numShadowFaces (take i (light # rest))) + k))
                     (renderData ((light # rest) ! i) k)
              else renderData ((light # rest) ! i) k)\<rparr>"
    if "i < length (light # rest)" for i
  proof (cases i)
    case 0
    with fit light' show ?thesis by (simp cong: if_cong)
  next
    case (Suc i')
    with that have "i' < length rest" by simp
    with ih Suc u' show ?thesis by (simp add: add.assoc cong: if_cong)
  qed
  show ?case
    using ih u' l each by (simp add: add.assoc)
qed

lemma updateUniforms_frame:
  "updateUniforms st = Inr st' \<Longrightarrow>
     slots st' = slots st \<and> subdivision st' = subdivision st \<and> shadowMap st' = shadowMap st \<and>
     shadowMapResolution st' = shadowMapResolution st \<and> atlases_created st' = atlases_created st \<and>
     device_webgl2 st' = device_webgl2 st"
  by (auto simp: updateUniforms_def Let_def split: option.splits)

lemma updateUniforms_ok:
  "shadowMap st \<noteq> None \<Longrightarrow> \<exists>st'. updateUniforms st = Inr st'"
  by (auto simp: updateUniforms_def Let_def split: option.splits)

lemma update_state_frame:
  "slots (fst (update st spotLights omniLights)) =
      slots (update_allocate st (collect_lights spotLights [])) \<and>
   subdivision (fst (update st spotLights omniLights)) =
      subdivision (update_allocate st (collect_lights spotLights [])) \<and>
   shadowMap (fst (update st spotLights omniLights)) =
      shadowMap (update_allocate st (collect_lights spotLights [])) \<and>
   shadowMapResolution (fst (update st spotLights omniLights)) =
      shadowMapResolution (update_allocate st (collect_lights spotLights [])) \<and>
   atlases_created (fst (update st spotLights omniLights)) =
      atlases_created (update_allocate st (collect_lights spotLights []))"
  by (auto simp: update_def Let_def dest: updateUniforms_frame split: sum.splits prod.splits)

lemma update_Inr:
  assumes "update st spotLights omniLights = (st', Inr lights')"
  shows "\<exists>n. assign_lights (update_allocate st (collect_lights spotLights []))
              (scissorVec_of (update_allocate st (collect_lights spotLights [])))
              (collect_lights spotLights []) 0 = Inr (lights', n) \<and>
            updateUniforms (update_allocate st (collect_lights spotLights [])) = Inr st'"
  using assms by (auto simp: update_def Let_def split: sum.splits prod.splits)

text \<open>
  C9. With no spot light that is both visible and shadow casting, \<open>update\<close> creates
  no shadow map and leaves the slot list, the subdivision and the shadow map as they
  were.
\<close>

theorem update_idle:
  assumes "\<forall>light \<in> set spotLights. \<not> (visibleThisFrame light \<and> castShadows light)"
  shows "slots (fst (update st spotLights omniLights)) = slots st \<and>
         subdivision (fst (update st spotLights omniLights)) = subdivision st \<and>
         shadowMap (fst (update st spotLights omniLights)) = shadowMap st \<and>
         atlases_created (fst (update st spotLights omniLights)) = atlases_created st"
proof -
  have "filter (\<lambda>light. visibleThisFrame light \<and> castShadows light) spotLights = []"
    using assms by (simp add: filter_empty_conv)
  then have "collect_lights spotLights [] = []" by (simp add: collect_lights_filter)
  then have "update_allocate st (collect_lights spotLights []) = st"
    by (simp add: update_allocate_def)
  with update_state_frame [of st spotLights omniLights] show ?thesis by simp
qed

theorem update_idle_witness:
  "\<not> (visibleThisFrame hidden_spot \<and> castShadows hidden_spot) \<and>
   slots (fst (update (subdivide (constructor True) 5) [hidden_spot] [])) =
     slots (subdivide (constructor True) 5) \<and>
   subdivision (fst (update (subdivide (constructor True) 5) [hidden_spot] [])) = 3 \<and>
   shadowMap (fst (update (subdivide (constructor True) 5) [hidden_spot] [])) =
     Some \<lparr>texture_width = 1, cached = False, atlas_id = 0\<rparr> \<and>
   atlases_created (fst (update (subdivide (constructor True) 5) [hidden_spot] [])) = 1"
proof -
  have h: "\<forall>light \<in> set [hidden_spot]. \<not> (visibleThisFrame light \<and> castShadows light)"
    by (simp add: hidden_spot_def)
  have sm: "shadowMap (subdivide (constructor True) 5) = Some \<lparr>texture_width = 1, cached = False, atlas_id = 0\<rparr>"
    by (simp add: subdivide_def Let_def constructor_def allocateUniforms_def allocateShadowMap_def
        ShadowMap_createAtlas_def)
  have ac: "atlases_created (subdivide (constructor True) 5) = 1"
    by (simp add: subdivide_def Let_def constructor_def allocateUniforms_def allocateShadowMap_def)
  show ?thesis
    using update_idle [OF h, of "subdivide (constructor True) 5" "[]"] h sm ac
    by (simp add: subdivide_subdivision Math_ceil_sqrt_5)
qed

lemma update_allocate_resolution:
  "shadowMapResolution (update_allocate st lights) = shadowMapResolution st"
  by (simp add: update_allocate_def subdivide_def allocateShadowMap_def Let_def)

lemma update_allocate_shadowMap:
  "lights \<noteq> [] \<Longrightarrow> shadowMap (update_allocate st lights) \<noteq> None"
  by (auto simp: update_allocate_def subdivide_def allocateShadowMap_def Let_def
      split: option.splits)

lemma assign_slot_scissor: "shadowScissor (assign_slot scissorVec ty slot rd) = slot"
  by (simp add: assign_slot_def Let_def)

lemma assign_slot_viewport:
  "shadowViewport (assign_slot scissorVec ty slot rd) =
     (if ty = LIGHTTYPE_SPOT then vec4_add slot scissorVec else slot)"
  by (simp add: assign_slot_def Let_def)

lemma sum_take_Suc:
  "i < length xs \<Longrightarrow> sum_list (map f (take (Suc i) xs)) = sum_list (map f (take i xs)) + f (xs ! i)"
  by (simp add: take_Suc_conv_app_nth)

lemma update_fit:
  assumes lights: "lights = collect_lights spotLights []"
    and st1: "st1 = update_allocate st lights"
    and sm: "shadowMap st1 \<noteq> None"
    and fit: "sum_list (map numShadowFaces lights) \<le> length (slots st1)"
  shows "\<exists>st' lights'. update st spotLights omniLights = (st', Inr lights') \<and>
     updateUniforms st1 = Inr st' \<and>
     assign_lights st1 (scissorVec_of st1) lights 0 =
       Inr (lights', sum_list (map numShadowFaces lights)) \<and>
     length lights' = length lights \<and>
     (\<forall>i < length lights.
        lights' ! i = (lights ! i)
          \<lparr>priv_shadowMap := shadowMap st1,
           renderData := (\<lambda>k. if k < numShadowFaces (lights ! i)
              then assign_slot (scissorVec_of st1) (priv_type (lights ! i))
                     (slots st1 ! (sum_list (map numShadowFaces (take i lights)) + k))
                     (renderData (lights ! i) k)
              else renderData (lights ! i) k)\<rparr>)"
proof -
  have "0 + sum_list (map numShadowFaces lights) \<le> length (slots st1)" using fit by simp
  from assign_lights_fit [OF this, of "scissorVec_of st1"] obtain lights' where
    a0: "assign_lights st1 (scissorVec_of st1) lights 0 =
       Inr (lights', 0 + sum_list (map numShadowFaces lights))" and
    b: "length lights' = length lights" and
    c0: "\<forall>i < length lights.
        lights' ! i = (lights ! i)
          \<lparr>priv_shadowMap := shadowMap st1,
           renderData := (\<lambda>k. if k < numShadowFaces (lights ! i)
              then assign_slot (scissorVec_of st1) (priv_type (lights ! i))
                     (slots st1 ! (0 + sum_list (map numShadowFaces (take i lights)) + k))
                     (renderData (lights ! i) k)
              else renderData (lights ! i) k)\<rparr>"
    by blast
  have a: "assign_lights st1 (scissorVec_of st1) lights 0 =
       Inr (lights', sum_list (map numShadowFaces lights))"
    using a0 by simp
  have c: "\<forall>i < length lights.
        lights' ! i = (lights ! i)
          \<lparr>priv_shadowMap := shadowMap st1,
           renderData := (\<lambda>k. if k < numShadowFaces (lights ! i)
              then assign_slot (scissorVec_of st1) (priv_type (lights ! i))
                     (slots st1 ! (sum_list (map numShadowFaces (take i lights)) + k))
                     (renderData (lights ! i) k)
              else renderData (lights ! i) k)\<rparr>"
    using c0 by (simp cong: if_cong)
  from updateUniforms_ok [OF sm] obtain st' where u: "updateUniforms st1 = Inr st'" by blast
  have "update st spotLights omniLights = (st', Inr lights')"
    using a u by (simp add: update_def Let_def lights [symmetric] st1 [symmetric])
  with a b c u show ?thesis by blast
qed

lemma map_const_replicate:
  "\<forall>x \<in> set xs. f x = c \<Longrightarrow> map f xs = replicate (length xs) c"
  by (induction xs) auto

lemma subdivide_stored_consistent:
  "slots st = stored_slots (subdivision st) \<Longrightarrow>
     slots (subdivide st n) = stored_slots (Math_ceil_sqrt n)"
  by (cases "subdivision st = Math_ceil_sqrt n")
     (simp_all add: subdivide_def Let_def subdivide_outer_stored)

lemma allocateShadowMap_frame:
  "slots (allocateShadowMap st r) = slots st \<and>
   subdivision (allocateShadowMap st r) = subdivision st \<and>
   shadowMapResolution (allocateShadowMap st r) = shadowMapResolution st"
  by (simp add: allocateShadowMap_def)

lemma update_allocate_grid:
  "slots st = stored_slots (subdivision st) \<Longrightarrow> lights \<noteq> [] \<Longrightarrow>
     slots (update_allocate st lights) = stored_slots (Math_ceil_sqrt (length lights)) \<and>
     subdivision (update_allocate st lights) = Math_ceil_sqrt (length lights)"
  by (simp add: update_allocate_def subdivide_stored_consistent allocateShadowMap_frame
      subdivide_subdivision)

lemma stored_slots_0: "stored_slots 0 = []"
  by (simp add: stored_slots_def)

lemma constructor_slots: "slots (constructor w) = []"
  by (simp add: constructor_def allocateUniforms_def allocateShadowMap_def)

lemma constructor_resolution: "shadowMapResolution (constructor w) = 2048"
  by (simp add: constructor_def allocateUniforms_def allocateShadowMap_def)

lemma constructor_stored: "slots (constructor w) = stored_slots (subdivision (constructor w))"
  by (simp add: constructor_slots constructor_subdivision stored_slots_0)

lemma Math_ceil_sqrt_1: "Math_ceil_sqrt (Suc 0) = Suc 0"
  by (simp add: Math_ceil_sqrt_def)

lemma Math_ceil_sqrt_2: "Math_ceil_sqrt 2 = 2"
proof -
  have "Math_ceil_sqrt 2 = Suc 1" by (rule Math_ceil_sqrt_eqI) simp_all
  then show ?thesis by simp
qed

lemma Math_ceil_sqrt_6: "Math_ceil_sqrt 6 = 3"
proof -
  have "Math_ceil_sqrt 6 = Suc 2" by (rule Math_ceil_sqrt_eqI) simp_all
  then show ?thesis by simp
qed

lemma scissorVec_of_value:
  "scissorVec_of st =
     Vec4 (binary64 (4 / shadowMapResolution st)) (binary64 (4 / shadowMapResolution st))
          (- 2 * binary64 (4 / shadowMapResolution st))
          (- 2 * binary64 (4 / shadowMapResolution st))"
  by (simp only: scissorVec_of_def Let_def binary64_neg_double)

text \<open>
  What a returning \<open>update\<close> leaves on a face of a collected spot light, the
  allocator's slot list being the one \<open>subdivide\<close> stores for its subdivision.
\<close>

lemma update_spot_face:
  assumes cons: "slots st = stored_slots (subdivision st)"
    and upd: "update st spotLights omniLights = (st', Inr lights')"
    and i: "i < length lights'"
    and spot: "priv_type (lights' ! i) = LIGHTTYPE_SPOT"
    and face: "face < numShadowFaces (lights' ! i)"
    and k: "k = sum_list (map numShadowFaces (take i lights')) + face"
  shows "k < length (slots st') \<and>
      slots st' = stored_slots (subdivision st') \<and>
      length (slots st') = subdivision st' * subdivision st' \<and>
      shadowScissor (renderData (lights' ! i) face) = slots st' ! k \<and>
      shadowViewport (renderData (lights' ! i) face) = vec4_add (slots st' ! k) (scissorVec_of st)"
proof -
  define lights where "lights = collect_lights spotLights []"
  define st1 where "st1 = update_allocate st lights"
  have sv: "scissorVec_of st1 = scissorVec_of st"
    by (simp add: scissorVec_of_def st1_def update_allocate_resolution)
  from update_Inr [OF upd] obtain n where
    asg: "assign_lights st1 (scissorVec_of st1) lights 0 = Inr (lights', n)" and
    uni: "updateUniforms st1 = Inr st'"
    unfolding st1_def lights_def by blast
  have slots': "slots st' = slots st1" and sub': "subdivision st' = subdivision st1"
    using updateUniforms_frame [OF uni] by simp_all
  note char = assign_lights_Inr [OF asg]
  have len: "length lights' = length lights" using char by simp
  have il: "i < length lights" using i len by simp
  then have ne: "lights \<noteq> []" by auto
  have stored: "slots st1 = stored_slots (subdivision st1)"
    using update_allocate_grid [OF cons ne] by (simp add: st1_def)
  have each: "\<And>j. j < length lights \<Longrightarrow> lights' ! j = (lights ! j)
          \<lparr>priv_shadowMap := shadowMap st1,
           renderData := (\<lambda>k. if k < numShadowFaces (lights ! j)
              then assign_slot (scissorVec_of st1) (priv_type (lights ! j))
                     (slots st1 ! (0 + sum_list (map numShadowFaces (take j lights)) + k))
                     (renderData (lights ! j) k)
              else renderData (lights ! j) k)\<rparr>"
    using char by blast
  have faces: "map numShadowFaces lights' = map numShadowFaces lights"
    by (rule nth_equalityI) (simp_all add: len each)
  have takes: "map numShadowFaces (take i lights') = map numShadowFaces (take i lights)"
    using faces by (simp add: take_map [symmetric])
  have nf: "numShadowFaces (lights' ! i) = numShadowFaces (lights ! i)"
    using each [OF il] by simp
  have ty: "priv_type (lights ! i) = LIGHTTYPE_SPOT" using spot each [OF il] by simp
  have face': "face < numShadowFaces (lights ! i)" using face nf by simp
  have fit: "0 + sum_list (map numShadowFaces (take (Suc i) lights)) \<le> length (slots st1)"
    using char il face' by auto
  have k': "k = sum_list (map numShadowFaces (take i lights)) + face"
    using k takes by simp
  have k_lt: "k < length (slots st1)"
    using fit face' k' sum_take_Suc [OF il, of numShadowFaces] by simp
  have rd: "renderData (lights' ! i) face =
      assign_slot (scissorVec_of st1) LIGHTTYPE_SPOT (slots st1 ! k) (renderData (lights ! i) face)"
    using each [OF il] face' ty k' by simp
  have sc: "shadowScissor (renderData (lights' ! i) face) = slots st1 ! k"
    unfolding rd by (rule assign_slot_scissor)
  have vp: "shadowViewport (renderData (lights' ! i) face) =
      vec4_add (slots st1 ! k) (scissorVec_of st)"
    unfolding rd sv [symmetric] by (simp add: assign_slot_viewport)
  have l: "length (slots st1) = subdivision st1 * subdivision st1"
    by (subst stored) (rule stored_slots_length)
  show ?thesis
    using k_lt sc vp stored l unfolding slots' sub' by simp
qed

lemma binary64_double: "binary64 (2 * binary64 x) = 2 * binary64 x"
proof -
  obtain m k where m: "\<bar>m\<bar> < 2 ^ 53" and b: "binary64 x = of_int m * 2 powi k"
    using binary64_representable by blast
  have "2 * binary64 x = of_int m * 2 powi (k + 1)"
    by (simp add: b power_int_add)
  then show ?thesis using binary64_exact [OF m, of "k + 1"] by simp
qed

text \<open>
  A stored slot starts between 0 and 2 (in fact at most 1, up to rounding), and its
  size is at most 2.
\<close>

lemma stored_size_bound:
  assumes "0 < g"
  shows "binary64 (1 / real g) \<le> 2"
proof -
  from assms have g: "1 \<le> real g" by simp
  have u: "(2::real) powi (- 53) \<le> 1" by (simp add: power_int_minus)
  have le1: "1 / real g \<le> 1" using g by simp
  have "binary64 (1 / real g) \<le> (1 / real g) * (1 + 2 powi (- 53))"
    by (rule binary64_upper) simp
  also have "\<dots> \<le> 1 * (1 + 2 powi (- 53))"
    using le1 by (intro mult_right_mono) simp_all
  also have "\<dots> \<le> 2" using u by simp
  finally show ?thesis .
qed

lemma stored_cell_bounds:
  assumes "i < g"
  shows "0 \<le> binary64 (real i * binary64 (1 / real g)) \<and>
         binary64 (real i * binary64 (1 / real g)) \<le> 2"
proof -
  define inv where "inv = binary64 (1 / real g)"
  have g: "0 < real g" using assms by simp
  have u: "(2::real) powi (- 53) \<le> 1 / 4" by (simp add: power_int_minus)
  have inv0: "0 \<le> inv" unfolding inv_def by (rule binary64_nonneg) simp
  have "inv \<le> (1 / real g) * (1 + 2 powi (- 53))"
    unfolding inv_def by (rule binary64_upper) simp
  also have "\<dots> \<le> (1 / real g) * (5 / 4)"
    using u by (intro mult_left_mono) simp_all
  finally have inv1: "inv \<le> (1 / real g) * (5 / 4)" .
  have p0: "0 \<le> real i * inv" using inv0 by simp
  have frac: "real i * (1 / real g) \<le> 1" using assms g by (simp add: divide_le_eq)
  have "real i * inv \<le> real i * ((1 / real g) * (5 / 4))"
    using inv1 by (intro mult_left_mono) simp_all
  also have "\<dots> = (real i * (1 / real g)) * (5 / 4)" by simp
  also have "\<dots> \<le> 1 * (5 / 4)" using frac by (intro mult_right_mono) simp_all
  finally have p1: "real i * inv \<le> 5 / 4" by simp
  have "binary64 (real i * inv) \<le> (real i * inv) * (1 + 2 powi (- 53))"
    using p0 by (rule binary64_upper)
  also have "\<dots> \<le> (5 / 4) * (1 + 2 powi (- 53))"
    using p1 by (intro mult_right_mono) simp_all
  also have "\<dots> \<le> (5 / 4) * (5 / 4)" using u by (intro mult_left_mono) simp_all
  finally have "binary64 (real i * inv) \<le> 2" by simp
  with binary64_nonneg [OF p0] show ?thesis unfolding inv_def by simp
qed

text \<open>
  One axis of the shrinking, rounded: an edge at \<open>s\<close> moved by \<open>m\<close>, an extent \<open>d\<close>
  reduced by \<open>2m\<close>. The margin survives the rounding when it is at least
  \<open>2 powi -50\<close>, and the extent stays positive when \<open>2m < d\<close>.
\<close>

lemma shrunk_edge:
  assumes s0: "0 \<le> s" and s2: "s \<le> 2" and d2: "d \<le> 2"
    and big: "2 powi (- 50) \<le> m" and small: "2 * m < d"
  shows "s < binary64 (s + m) \<and> 0 < binary64 (d - 2 * m) \<and>
         binary64 (s + m) + binary64 (d - 2 * m) < s + d"
proof -
  have m: "1 / 2 ^ 50 \<le> m" using big by (simp add: power_int_minus)
  then have mpos: "0 < m" by (rule less_le_trans [rotated]) simp
  have sm: "0 \<le> s + m" using s0 mpos by simp
  have dm: "0 < d - 2 * m" using small by simp
  have lo: "(s + m) * (1 - 1 / 2 ^ 53) \<le> binary64 (s + m)"
    using binary64_lower [OF sm] by (simp add: power_int_minus)
  have hi: "binary64 (s + m) \<le> (s + m) * (1 + 1 / 2 ^ 53)"
    using binary64_upper [OF sm] by (simp add: power_int_minus)
  have hd: "binary64 (d - 2 * m) \<le> (d - 2 * m) * (1 + 1 / 2 ^ 53)"
    using binary64_upper [of "d - 2 * m"] dm by (simp add: power_int_minus)
  have a: "s < binary64 (s + m)" using lo m s2 by (simp add: algebra_simps)
  have b: "0 < binary64 (d - 2 * m)" using dm by (rule binary64_pos)
  have c: "binary64 (s + m) + binary64 (d - 2 * m) < s + d"
    using hi hd m s2 d2 by (simp add: algebra_simps)
  from a b c show ?thesis by simp
qed

text \<open>
  C5, as amended. After an \<open>update\<close> that returns, from an allocator whose slot list
  is the one \<open>subdivide\<close> stores for its subdivision (so it is from the constructor
  on): let \<open>m\<close> be \<open>4 / shadowMapResolution\<close> as a double. When \<open>m\<close> is at least
  \<open>2 powi -50\<close> and \<open>2m\<close> is less than the size of a slot, the double of
  \<open>1 / gridSize\<close>, then for every face of every collected spot light: the scissor
  is the slot assigned to the face (slots are taken in order, one per face); the
  viewport is that slot with \<open>m\<close> added to \<open>x\<close> and \<open>y\<close> and \<open>2m\<close> taken from width
  and height, each result rounded to a double; the viewport has positive width and
  height; and it lies strictly inside the scissor.
\<close>

theorem spot_viewport_inside_scissor:
  assumes cons: "slots st = stored_slots (subdivision st)"
    and upd: "update st spotLights omniLights = (st', Inr lights')"
    and m: "m = binary64 (4 / shadowMapResolution st)"
    and big: "2 powi (- 50) \<le> m"
    and small: "2 * m < binary64 (1 / real (subdivision st'))"
    and i: "i < length lights'"
    and spot: "priv_type (lights' ! i) = LIGHTTYPE_SPOT"
    and face: "face < numShadowFaces (lights' ! i)"
    and k: "k = sum_list (map numShadowFaces (take i lights')) + face"
  shows "k < length (slots st') \<and>
      shadowScissor (renderData (lights' ! i) face) = slots st' ! k \<and>
      shadowViewport (renderData (lights' ! i) face) =
         Vec4 (binary64 (vec_x (slots st' ! k) + m))
              (binary64 (vec_y (slots st' ! k) + m))
              (binary64 (vec_z (slots st' ! k) - 2 * m))
              (binary64 (vec_w (slots st' ! k) - 2 * m)) \<and>
      0 < vec_z (shadowViewport (renderData (lights' ! i) face)) \<and>
      0 < vec_w (shadowViewport (renderData (lights' ! i) face)) \<and>
      rect_strictly_inside (shadowViewport (renderData (lights' ! i) face))
                           (shadowScissor (renderData (lights' ! i) face))"
proof -
  define g where "g = subdivision st'"
  define inv where "inv = binary64 (1 / real g)"
  note f = update_spot_face [OF cons upd i spot face k]
  have k_lt: "k < length (slots st')" using f by blast
  have kg: "k < g * g" using f by (simp add: g_def stored_slots_length)
  have sc: "shadowScissor (renderData (lights' ! i) face) = slots st' ! k" using f by simp
  have vp0: "shadowViewport (renderData (lights' ! i) face) =
      vec4_add (slots st' ! k) (Vec4 m m (- 2 * m) (- 2 * m))"
    using f by (simp add: scissorVec_of_value m)
  have slot: "slots st' ! k = stored_cell g (k div g) (k mod g)"
    using f stored_slots_nth_divmod [OF kg] by (simp add: g_def)
  have gpos: "0 < g" using kg by (cases g) auto
  have a: "k div g < g" using kg gpos by (simp add: less_mult_imp_div_less)
  have b: "k mod g < g" using gpos by simp
  define sx where "sx = binary64 (real (k div g) * inv)"
  define sy where "sy = binary64 (real (k mod g) * inv)"
  have cell: "slots st' ! k = Vec4 sx sy inv inv"
    by (simp add: slot stored_cell_def sx_def sy_def inv_def)
  have bx: "0 \<le> sx \<and> sx \<le> 2" unfolding sx_def inv_def using a by (rule stored_cell_bounds)
  have by': "0 \<le> sy \<and> sy \<le> 2" unfolding sy_def inv_def using b by (rule stored_cell_bounds)
  have bi: "inv \<le> 2" unfolding inv_def using gpos by (rule stored_size_bound)
  have small': "2 * m < inv" using small by (simp add: inv_def g_def)
  have ex: "sx < binary64 (sx + m) \<and> 0 < binary64 (inv - 2 * m) \<and>
         binary64 (sx + m) + binary64 (inv - 2 * m) < sx + inv"
    using bx bi big small' by (intro shrunk_edge) simp_all
  have ey: "sy < binary64 (sy + m) \<and> 0 < binary64 (inv - 2 * m) \<and>
         binary64 (sy + m) + binary64 (inv - 2 * m) < sy + inv"
    using by' bi big small' by (intro shrunk_edge) simp_all
  have vp: "shadowViewport (renderData (lights' ! i) face) =
      Vec4 (binary64 (sx + m)) (binary64 (sy + m)) (binary64 (inv - 2 * m)) (binary64 (inv - 2 * m))"
    by (simp add: vp0 cell vec4_add_def)
  have inside: "rect_strictly_inside (shadowViewport (renderData (lights' ! i) face))
                           (shadowScissor (renderData (lights' ! i) face))"
    unfolding sc vp cell using ex ey by (simp add: rect_strictly_inside_def)
  have pos: "0 < vec_z (shadowViewport (renderData (lights' ! i) face))"
    "0 < vec_w (shadowViewport (renderData (lights' ! i) face))"
    using ex by (simp_all add: vp)
  have vp': "shadowViewport (renderData (lights' ! i) face) =
         Vec4 (binary64 (vec_x (slots st' ! k) + m))
              (binary64 (vec_y (slots st' ! k) + m))
              (binary64 (vec_z (slots st' ! k) - 2 * m))
              (binary64 (vec_w (slots st' ! k) - 2 * m))"
    by (simp add: vp cell)
  from k_lt sc vp' pos inside show ?thesis by blast
qed

lemma collect_two_spots:
  "collect_lights [spot_light, spot_light\<lparr>light_id := 2\<rparr>] [] =
     [spot_light, spot_light\<lparr>light_id := 2\<rparr>]"
  by (simp add: spot_light_def)

theorem spot_viewport_inside_scissor_witness:
  "slots (constructor True) = stored_slots (subdivision (constructor True)) \<and>
   binary64 (4 / shadowMapResolution (constructor True)) = 1 / 512 \<and>
   subdivision (fst (update (constructor True) [spot_light, spot_light\<lparr>light_id := 2\<rparr>] [])) = 2 \<and>
   priv_type (projr (snd (update (constructor True) [spot_light, spot_light\<lparr>light_id := 2\<rparr>] [])) ! 1) =
     LIGHTTYPE_SPOT \<and>
   shadowScissor (renderData
       (projr (snd (update (constructor True) [spot_light, spot_light\<lparr>light_id := 2\<rparr>] [])) ! 1) 0) =
     Vec4 0 (1 / 2) (1 / 2) (1 / 2) \<and>
   shadowViewport (renderData
       (projr (snd (update (constructor True) [spot_light, spot_light\<lparr>light_id := 2\<rparr>] [])) ! 1) 0) =
     Vec4 (1 / 512) (257 / 512) (127 / 256) (127 / 256) \<and>
   rect_strictly_inside
     (shadowViewport (renderData
        (projr (snd (update (constructor True) [spot_light, spot_light\<lparr>light_id := 2\<rparr>] [])) ! 1) 0))
     (shadowScissor (renderData
        (projr (snd (update (constructor True) [spot_light, spot_light\<lparr>light_id := 2\<rparr>] [])) ! 1) 0))"
proof -
  define spots where "spots = [spot_light, spot_light\<lparr>light_id := 2\<rparr>]"
  define lights where "lights = collect_lights spots []"
  define st1 where "st1 = update_allocate (constructor True) lights"
  have l2: "lights = [spot_light, spot_light\<lparr>light_id := 2\<rparr>]"
    unfolding lights_def spots_def by (rule collect_two_spots)
  have ne: "lights \<noteq> []" by (simp add: l2)
  have two: "length lights = 2" by (simp add: l2)
  have grid: "slots st1 = stored_slots 2" and sub1: "subdivision st1 = 2"
    using update_allocate_grid [OF constructor_stored ne, of True]
    unfolding two Math_ceil_sqrt_2 st1_def by simp_all
  have sm: "shadowMap st1 \<noteq> None" unfolding st1_def using ne by (rule update_allocate_shadowMap)
  have fit: "sum_list (map numShadowFaces lights) \<le> length (slots st1)"
    by (simp add: grid stored_slots_length l2 spot_light_def)
  from update_fit [OF lights_def st1_def sm fit, of "[]"] obtain st' lights' where
    u: "update (constructor True) spots [] = (st', Inr lights')" and
    uu: "updateUniforms st1 = Inr st'" and
    len: "length lights' = length lights" and
    each: "\<forall>i < length lights.
        lights' ! i = (lights ! i)
          \<lparr>priv_shadowMap := shadowMap st1,
           renderData := (\<lambda>k. if k < numShadowFaces (lights ! i)
              then assign_slot (scissorVec_of st1) (priv_type (lights ! i))
                     (slots st1 ! (sum_list (map numShadowFaces (take i lights)) + k))
                     (renderData (lights ! i) k)
              else renderData (lights ! i) k)\<rparr>"
    by blast
  have pr: "projr (snd (update (constructor True) spots [])) = lights'"
    "fst (update (constructor True) spots []) = st'"
    using u by simp_all
  have i: "1 < length lights'" by (simp add: len l2)
  have ty: "priv_type (lights' ! 1) = LIGHTTYPE_SPOT"
    using each [THEN spec, of 1] by (simp add: l2 spot_light_def)
  have face: "0 < numShadowFaces (lights' ! 1)"
    using each [THEN spec, of 1] by (simp add: l2 spot_light_def)
  have k: "(1::nat) = sum_list (map numShadowFaces (take 1 lights')) + 0"
  proof -
    have "numShadowFaces (lights' ! 0) = 1"
      using each [THEN spec, of 0] by (simp add: l2 spot_light_def)
    moreover have "take 1 lights' = [lights' ! 0]"
      using i by (cases lights') simp_all
    ultimately show ?thesis by simp
  qed
  have sub': "subdivision st' = 2" using updateUniforms_frame [OF uu] sub1 by simp
  have slots': "slots st' = stored_slots 2" using updateUniforms_frame [OF uu] grid by simp
  have "stored_slots (2 ^ 1) = grid_slots (2 ^ 1)" by (rule stored_slots_pow2) simp
  then have "slots st' = grid_slots 2" by (simp add: slots')
  then have slot1: "slots st' ! 1 = Vec4 0 (1 / 2) (1 / 2) (1 / 2)"
    using grid_slots_nth [of 0 2 1] by (simp add: grid_cell_def)
  have m: "binary64 (4 / shadowMapResolution (constructor True)) = 1 / 512"
    using binary64_inverse_pow2 [of 9] by (simp add: constructor_resolution)
  have m': "1 / 512 = binary64 (4 / shadowMapResolution (constructor True))"
    using m by simp
  have big: "2 powi (- 50) \<le> (1 / 512 :: real)" by (simp add: power_int_minus)
  have half: "binary64 (1 / real (subdivision st')) = 1 / 2"
    using binary64_inverse_pow2 [of 1] by (simp add: sub')
  have small: "2 * (1 / 512) < binary64 (1 / real (subdivision st'))"
    by (simp add: half)
  have vals: "binary64 (1 / 512) = 1 / 512" "binary64 (257 / 512) = 257 / 512"
    "binary64 (127 / 256) = 127 / 256"
    using binary64_nat_over_pow2 [of 1 9] binary64_nat_over_pow2 [of 257 9]
      binary64_nat_over_pow2 [of 127 8]
    by simp_all
  note main = spot_viewport_inside_scissor [OF constructor_stored u m' big small i ty face k]
  have sc: "shadowScissor (renderData (lights' ! 1) 0) = Vec4 0 (1 / 2) (1 / 2) (1 / 2)"
    using main slot1 by simp
  have vp: "shadowViewport (renderData (lights' ! 1) 0) =
      Vec4 (1 / 512) (257 / 512) (127 / 256) (127 / 256)"
    using main slot1 by (simp add: vals)
  have inside: "rect_strictly_inside (shadowViewport (renderData (lights' ! 1) 0))
      (shadowScissor (renderData (lights' ! 1) 0))"
    using main by blast
  show ?thesis
    using constructor_stored [of True] m sub' ty sc vp inside
    unfolding spots_def [symmetric] pr by blast
qed

lemma stored_slots_1: "stored_slots (Suc 0) = [Vec4 0 0 1 1]"
  by (simp add: stored_slots_def stored_cell_def)

lemma update_single_spot:
  assumes "slots st = stored_slots (subdivision st)"
  shows "\<exists>st' lights'. update st [spot_light] [] = (st', Inr lights') \<and>
     shadowScissor (renderData (lights' ! 0) 0) = Vec4 0 0 1 1 \<and>
     shadowViewport (renderData (lights' ! 0) 0) = vec4_add (Vec4 0 0 1 1) (scissorVec_of st)"
proof -
  define lights where "lights = collect_lights [spot_light] []"
  define st1 where "st1 = update_allocate st lights"
  have l1: "lights = [spot_light]" by (simp add: lights_def spot_light_def)
  have ne: "lights \<noteq> []" by (simp add: l1)
  have grid: "slots st1 = stored_slots 1"
    using update_allocate_grid [OF assms ne] by (simp add: st1_def l1 Math_ceil_sqrt_1)
  have sm: "shadowMap st1 \<noteq> None" unfolding st1_def using ne by (rule update_allocate_shadowMap)
  have fit: "sum_list (map numShadowFaces lights) \<le> length (slots st1)"
    by (simp add: grid stored_slots_1 l1 spot_light_def)
  from update_fit [OF lights_def st1_def sm fit, of "[]"] obtain st' lights' where
    u: "update st [spot_light] [] = (st', Inr lights')" and
    uu: "updateUniforms st1 = Inr st'" and
    len: "length lights' = length lights" and
    each: "\<forall>i < length lights.
        lights' ! i = (lights ! i)
          \<lparr>priv_shadowMap := shadowMap st1,
           renderData := (\<lambda>k. if k < numShadowFaces (lights ! i)
              then assign_slot (scissorVec_of st1) (priv_type (lights ! i))
                     (slots st1 ! (sum_list (map numShadowFaces (take i lights)) + k))
                     (renderData (lights ! i) k)
              else renderData (lights ! i) k)\<rparr>"
    by blast
  have i: "0 < length lights'" by (simp add: len l1)
  have ty: "priv_type (lights' ! 0) = LIGHTTYPE_SPOT"
    using each [THEN spec, of 0] by (simp add: l1 spot_light_def)
  have face: "0 < numShadowFaces (lights' ! 0)"
    using each [THEN spec, of 0] by (simp add: l1 spot_light_def)
  have k: "(0::nat) = sum_list (map numShadowFaces (take 0 lights')) + 0" by simp
  note f = update_spot_face [OF assms u i ty face k]
  have sub': "subdivision st' = 1"
    using updateUniforms_frame [OF uu] update_allocate_grid [OF assms ne]
    by (simp add: st1_def l1 Math_ceil_sqrt_1)
  have slot: "slots st' ! 0 = Vec4 0 0 1 1" using f by (simp add: sub' stored_slots_1)
  show ?thesis using u f slot by simp
qed

text \<open>
  The claim of C5 as stated fails at both ends of the resolutions above 0. With
  \<open>shadowMapResolution = 2\<close> and one spot light, the margin is 2 in a slot of size 1:
  the viewport is \<open>(2, 2, -3, -3)\<close>, of negative width and height, and starts beyond
  the far edges of its scissor \<open>(0, 0, 1, 1)\<close>. With \<open>shadowMapResolution = 2 ^ 60\<close>
  the margin \<open>2 powi -58\<close> moves the corner, and is lost when \<open>1 - 2 powi -57\<close> is
  rounded to 1: the viewport is \<open>(2 powi -58, 2 powi -58, 1, 1)\<close> and reaches beyond
  the scissor.
\<close>

theorem spot_viewport_outside_scissor_counterexample:
  "0 < shadowMapResolution ((constructor True)\<lparr>shadowMapResolution := 2\<rparr>) \<and>
   shadowScissor (renderData (projr (snd
       (update ((constructor True)\<lparr>shadowMapResolution := 2\<rparr>) [spot_light] [])) ! 0) 0) =
     Vec4 0 0 1 1 \<and>
   shadowViewport (renderData (projr (snd
       (update ((constructor True)\<lparr>shadowMapResolution := 2\<rparr>) [spot_light] [])) ! 0) 0) =
     Vec4 2 2 (- 3) (- 3) \<and>
   \<not> rect_strictly_inside
     (shadowViewport (renderData (projr (snd
       (update ((constructor True)\<lparr>shadowMapResolution := 2\<rparr>) [spot_light] [])) ! 0) 0))
     (shadowScissor (renderData (projr (snd
       (update ((constructor True)\<lparr>shadowMapResolution := 2\<rparr>) [spot_light] [])) ! 0) 0)) \<and>
   0 < shadowMapResolution ((constructor True)\<lparr>shadowMapResolution := 2 ^ 60\<rparr>) \<and>
   shadowScissor (renderData (projr (snd
       (update ((constructor True)\<lparr>shadowMapResolution := 2 ^ 60\<rparr>) [spot_light] [])) ! 0) 0) =
     Vec4 0 0 1 1 \<and>
   shadowViewport (renderData (projr (snd
       (update ((constructor True)\<lparr>shadowMapResolution := 2 ^ 60\<rparr>) [spot_light] [])) ! 0) 0) =
     Vec4 (1 / 2 ^ 58) (1 / 2 ^ 58) 1 1 \<and>
   \<not> rect_strictly_inside
     (shadowViewport (renderData (projr (snd
       (update ((constructor True)\<lparr>shadowMapResolution := 2 ^ 60\<rparr>) [spot_light] [])) ! 0) 0))
     (shadowScissor (renderData (projr (snd
       (update ((constructor True)\<lparr>shadowMapResolution := 2 ^ 60\<rparr>) [spot_light] [])) ! 0) 0))"
proof -
  define low where "low = (constructor True)\<lparr>shadowMapResolution := 2\<rparr>"
  define high where "high = (constructor True)\<lparr>shadowMapResolution := 2 ^ 60\<rparr>"
  have cl: "slots low = stored_slots (subdivision low)"
    using constructor_stored [of True] by (simp add: low_def)
  have ch: "slots high = stored_slots (subdivision high)"
    using constructor_stored [of True] by (simp add: high_def)
  have two: "binary64 2 = 2" using binary64_of_int [of 2] by simp
  have three: "binary64 (- 3) = - 3" using binary64_of_int [of "- 3"] by simp
  have svl: "scissorVec_of low = Vec4 2 2 (- 4) (- 4)"
    by (simp add: scissorVec_of_value low_def two)
  have tiny: "binary64 (1 / 2 ^ 58) = 1 / 2 ^ 58" by (rule binary64_inverse_pow2)
  have "binary64 (4 / 2 ^ 60) = 1 / 2 ^ 58" using tiny by simp
  then have svh: "scissorVec_of high = Vec4 (1 / 2 ^ 58) (1 / 2 ^ 58) (- 2 * (1 / 2 ^ 58)) (- 2 * (1 / 2 ^ 58))"
    by (simp only: scissorVec_of_value high_def) simp
  have "binary64 (1 - 1 / 2 ^ 57) =
      of_int (round_half_even ((1 - 1 / 2 ^ 57) / 2 powi (- 1 - 52))) * 2 powi (- 1 - 52)"
    by (rule binary64_at) (simp_all add: power_int_minus)
  also have "\<dots> = 1" by (simp add: round_half_even_def power_int_minus)
  finally have lost: "binary64 (1 - 1 / 2 ^ 57) = 1" .
  from update_single_spot [OF cl] obtain sl ll where
    ul: "update low [spot_light] [] = (sl, Inr ll)" and
    scl: "shadowScissor (renderData (ll ! 0) 0) = Vec4 0 0 1 1" and
    vpl0: "shadowViewport (renderData (ll ! 0) 0) = vec4_add (Vec4 0 0 1 1) (scissorVec_of low)"
    by blast
  from update_single_spot [OF ch] obtain sh lh where
    uh: "update high [spot_light] [] = (sh, Inr lh)" and
    sch: "shadowScissor (renderData (lh ! 0) 0) = Vec4 0 0 1 1" and
    vph0: "shadowViewport (renderData (lh ! 0) 0) = vec4_add (Vec4 0 0 1 1) (scissorVec_of high)"
    by blast
  have vpl: "shadowViewport (renderData (ll ! 0) 0) = Vec4 2 2 (- 3) (- 3)"
    by (simp add: vpl0 svl vec4_add_def two three)
  have vph: "shadowViewport (renderData (lh ! 0) 0) = Vec4 (1 / 2 ^ 58) (1 / 2 ^ 58) 1 1"
    using tiny lost by (simp add: vph0 svh vec4_add_def)
  have outl: "\<not> rect_strictly_inside (shadowViewport (renderData (ll ! 0) 0))
      (shadowScissor (renderData (ll ! 0) 0))"
    by (simp add: vpl scl rect_strictly_inside_def)
  have outh: "\<not> rect_strictly_inside (shadowViewport (renderData (lh ! 0) 0))
      (shadowScissor (renderData (lh ! 0) 0))"
    by (simp add: vph sch rect_strictly_inside_def)
  have prl: "projr (snd (update low [spot_light] [])) = ll" using ul by simp
  have prh: "projr (snd (update high [spot_light] [])) = lh" using uh by simp
  have rl: "0 < shadowMapResolution low" by (simp add: low_def)
  have rh: "0 < shadowMapResolution high" by (simp add: high_def)
  show ?thesis
    unfolding low_def [symmetric] high_def [symmetric] prl prh
    using rl scl vpl outl rh sch vph outh by blast
qed

lemma stored_slots_3_nth:
  "i < 9 \<Longrightarrow> stored_slots 3 ! i =
     Vec4 (binary64 (real (i div 3) * binary64 (1 / 3))) (binary64 (real (i mod 3) * binary64 (1 / 3)))
          (binary64 (1 / 3)) (binary64 (1 / 3))"
  using stored_slots_nth_divmod [of i 3] by (simp add: stored_cell_def)

lemma stored_slots_sizes:
  "r \<in> set (stored_slots g) \<Longrightarrow>
     vec_z r = binary64 (1 / real g) \<and> vec_w r = binary64 (1 / real g)"
  by (auto simp: stored_slots_set stored_cell_def)

text \<open>
  C6. \<open>update\<close> collects the lights of \<open>spotLights\<close> that are visible this frame and
  cast shadows, in list order, and walks them in that order and the faces of each in
  order; the face reached after \<open>k\<close> earlier faces gets slot \<open>k\<close>, counted from 0:
  its scissor is that slot; its viewport is that slot, with \<open>scissorVec\<close> added for a
  spot light (the sum is stated for a \<open>shadowMapResolution\<close> other than 0); and each
  light's \<open>_shadowMap\<close> is the allocator's shadow map. Nothing else of a light
  changes, and the light at position \<open>i\<close> of the result is the \<open>i\<close>-th collected
  light. This is what \<open>update\<close> returns whenever the slot list holds a slot for every
  face. In particular, from an allocator whose slot list is the one \<open>subdivide\<close>
  stores for its subdivision (so it is from the constructor on), five collected
  lights of one face each give subdivision 3 and 9 slots of size \<open>(1/3, 1/3)\<close>, as
  doubles; light \<open>i\<close> gets slot \<open>i\<close>, the cell \<open>(i div 3, i mod 3)\<close>; the loop ends
  with \<open>usedCount = 5\<close>, so 4 slots are unused.
\<close>

theorem update_assigns_slots_in_order:
  assumes lights: "lights = filter (\<lambda>light. visibleThisFrame light \<and> castShadows light) spotLights"
    and st1: "st1 = update_allocate st lights"
  shows "(lights \<noteq> [] \<and> sum_list (map numShadowFaces lights) \<le> length (slots st1) \<longrightarrow>
      (\<exists>st' lights'. update st spotLights omniLights = (st', Inr lights') \<and>
         slots st' = slots st1 \<and> shadowMap st' = shadowMap st1 \<and> shadowMap st' \<noteq> None \<and>
         length lights' = length lights \<and>
         (\<forall>i < length lights.
            (lights' ! i)\<lparr>priv_shadowMap := priv_shadowMap (lights ! i),
                          renderData := renderData (lights ! i)\<rparr> = lights ! i \<and>
            priv_shadowMap (lights' ! i) = shadowMap st' \<and>
            (\<forall>face. numShadowFaces (lights ! i) \<le> face \<longrightarrow>
               renderData (lights' ! i) face = renderData (lights ! i) face) \<and>
            (\<forall>face < numShadowFaces (lights ! i).
               shadowScissor (renderData (lights' ! i) face) =
                 slots st' ! (sum_list (map numShadowFaces (take i lights)) + face) \<and>
               (priv_type (lights ! i) \<noteq> LIGHTTYPE_SPOT \<longrightarrow>
                  shadowViewport (renderData (lights' ! i) face) =
                    slots st' ! (sum_list (map numShadowFaces (take i lights)) + face)) \<and>
               (priv_type (lights ! i) = LIGHTTYPE_SPOT \<and> shadowMapResolution st \<noteq> 0 \<longrightarrow>
                  shadowViewport (renderData (lights' ! i) face) =
                    vec4_add (slots st' ! (sum_list (map numShadowFaces (take i lights)) + face))
                      (scissorVec_of st')))))) \<and>
    (slots st = stored_slots (subdivision st) \<and> length lights = 5 \<and>
     (\<forall>light \<in> set lights. numShadowFaces light = 1) \<longrightarrow>
       subdivision st1 = 3 \<and> length (slots st1) = 9 \<and>
       (\<forall>r \<in> set (slots st1). vec_z r = binary64 (1 / 3) \<and> vec_w r = binary64 (1 / 3)) \<and>
       (\<exists>st' lights'. update st spotLights omniLights = (st', Inr lights') \<and>
          assign_lights st1 (scissorVec_of st1) lights 0 = Inr (lights', 5) \<and>
          length lights' = 5 \<and>
          (\<forall>i < 5. light_id (lights' ! i) = light_id (lights ! i) \<and>
             shadowScissor (renderData (lights' ! i) 0) = slots st1 ! i \<and>
             slots st1 ! i =
               Vec4 (binary64 (real (i div 3) * binary64 (1 / 3)))
                    (binary64 (real (i mod 3) * binary64 (1 / 3)))
                    (binary64 (1 / 3)) (binary64 (1 / 3)))) \<and>
       length (slots st1) - 5 = 4)"
proof (intro conjI impI)
  have lights': "lights = collect_lights spotLights []"
    by (simp add: lights collect_lights_filter)
  assume "lights \<noteq> [] \<and> sum_list (map numShadowFaces lights) \<le> length (slots st1)"
  then have ne: "lights \<noteq> []" and fit: "sum_list (map numShadowFaces lights) \<le> length (slots st1)"
    by simp_all
  have sm: "shadowMap st1 \<noteq> None" unfolding st1 using ne by (rule update_allocate_shadowMap)
  from update_fit [OF lights' st1 sm fit, of omniLights] obtain st' lights' where
    u: "update st spotLights omniLights = (st', Inr lights')" and
    uu: "updateUniforms st1 = Inr st'" and
    len: "length lights' = length lights" and
    each: "\<forall>i < length lights.
        lights' ! i = (lights ! i)
          \<lparr>priv_shadowMap := shadowMap st1,
           renderData := (\<lambda>k. if k < numShadowFaces (lights ! i)
              then assign_slot (scissorVec_of st1) (priv_type (lights ! i))
                     (slots st1 ! (sum_list (map numShadowFaces (take i lights)) + k))
                     (renderData (lights ! i) k)
              else renderData (lights ! i) k)\<rparr>"
    by blast
  have fr: "slots st' = slots st1" "shadowMap st' = shadowMap st1"
    "shadowMapResolution st' = shadowMapResolution st1"
    using updateUniforms_frame [OF uu] by simp_all
  have sv: "scissorVec_of st' = scissorVec_of st1" by (simp add: scissorVec_of_def fr)
  show "\<exists>st' lights'. update st spotLights omniLights = (st', Inr lights') \<and>
         slots st' = slots st1 \<and> shadowMap st' = shadowMap st1 \<and> shadowMap st' \<noteq> None \<and>
         length lights' = length lights \<and>
         (\<forall>i < length lights.
            (lights' ! i)\<lparr>priv_shadowMap := priv_shadowMap (lights ! i),
                          renderData := renderData (lights ! i)\<rparr> = lights ! i \<and>
            priv_shadowMap (lights' ! i) = shadowMap st' \<and>
            (\<forall>face. numShadowFaces (lights ! i) \<le> face \<longrightarrow>
               renderData (lights' ! i) face = renderData (lights ! i) face) \<and>
            (\<forall>face < numShadowFaces (lights ! i).
               shadowScissor (renderData (lights' ! i) face) =
                 slots st' ! (sum_list (map numShadowFaces (take i lights)) + face) \<and>
               (priv_type (lights ! i) \<noteq> LIGHTTYPE_SPOT \<longrightarrow>
                  shadowViewport (renderData (lights' ! i) face) =
                    slots st' ! (sum_list (map numShadowFaces (take i lights)) + face)) \<and>
               (priv_type (lights ! i) = LIGHTTYPE_SPOT \<and> shadowMapResolution st \<noteq> 0 \<longrightarrow>
                  shadowViewport (renderData (lights' ! i) face) =
                    vec4_add (slots st' ! (sum_list (map numShadowFaces (take i lights)) + face))
                      (scissorVec_of st'))))"
    using u len each sm
    by (intro exI [of _ st'] exI [of _ lights'])
       (simp add: fr sv assign_slot_scissor assign_slot_viewport)
next
  have lights': "lights = collect_lights spotLights []"
    by (simp add: lights collect_lights_filter)
  assume "slots st = stored_slots (subdivision st) \<and> length lights = 5 \<and>
     (\<forall>light \<in> set lights. numShadowFaces light = 1)"
  then have cons: "slots st = stored_slots (subdivision st)" and five: "length lights = 5"
    and single: "\<forall>light \<in> set lights. numShadowFaces light = 1"
    by simp_all
  have ne: "lights \<noteq> []" using five by auto
  have grid: "slots st1 = stored_slots 3" and sub: "subdivision st1 = 3"
    using update_allocate_grid [OF cons ne] by (simp_all add: st1 five Math_ceil_sqrt_5)
  have len: "length (slots st1) = 9" by (simp add: grid stored_slots_length)
  have sizes: "\<forall>r \<in> set (slots st1). vec_z r = binary64 (1 / 3) \<and> vec_w r = binary64 (1 / 3)"
    unfolding grid using stored_slots_sizes [of _ 3] by simp
  have faces: "map numShadowFaces lights = replicate (length lights) 1"
    using single by (rule map_const_replicate)
  have total: "sum_list (map numShadowFaces lights) = 5"
    by (simp add: faces five sum_list_replicate)
  have offs: "sum_list (map numShadowFaces (take i lights)) = i" if "i < 5" for i
  proof -
    have "map numShadowFaces (take i lights) = replicate i 1"
      using that five by (simp add: take_map [symmetric] faces)
    then show ?thesis by (simp add: sum_list_replicate)
  qed
  have sm: "shadowMap st1 \<noteq> None" unfolding st1 using ne by (rule update_allocate_shadowMap)
  have fit: "sum_list (map numShadowFaces lights) \<le> length (slots st1)" by (simp add: total len)
  from update_fit [OF lights' st1 sm fit, of omniLights] obtain st' lights' where
    u: "update st spotLights omniLights = (st', Inr lights')" and
    a: "assign_lights st1 (scissorVec_of st1) lights 0 =
          Inr (lights', sum_list (map numShadowFaces lights))" and
    len': "length lights' = length lights" and
    each: "\<forall>i < length lights.
        lights' ! i = (lights ! i)
          \<lparr>priv_shadowMap := shadowMap st1,
           renderData := (\<lambda>k. if k < numShadowFaces (lights ! i)
              then assign_slot (scissorVec_of st1) (priv_type (lights ! i))
                     (slots st1 ! (sum_list (map numShadowFaces (take i lights)) + k))
                     (renderData (lights ! i) k)
              else renderData (lights ! i) k)\<rparr>"
    by blast
  have one: "numShadowFaces (lights ! i) = 1" if "i < 5" for i
    using single that five by simp
  have sc: "shadowScissor (renderData (lights' ! i) 0) = slots st1 ! i" if "i < 5" for i
    using each that five one [OF that] offs [OF that] by (simp add: assign_slot_scissor)
  have ids: "light_id (lights' ! i) = light_id (lights ! i)" if "i < 5" for i
    using each that five by simp
  have cell: "slots st1 ! i =
      Vec4 (binary64 (real (i div 3) * binary64 (1 / 3)))
           (binary64 (real (i mod 3) * binary64 (1 / 3)))
           (binary64 (1 / 3)) (binary64 (1 / 3))"
    if "i < 5" for i
    unfolding grid using that by (intro stored_slots_3_nth) simp
  have l5: "length lights' = 5" using len' five by simp
  show "subdivision st1 = 3" by (rule sub)
  show "length (slots st1) = 9" by (rule len)
  show "\<forall>r \<in> set (slots st1). vec_z r = binary64 (1 / 3) \<and> vec_w r = binary64 (1 / 3)"
    by (rule sizes)
  show "\<exists>st' lights'. update st spotLights omniLights = (st', Inr lights') \<and>
          assign_lights st1 (scissorVec_of st1) lights 0 = Inr (lights', 5) \<and>
          length lights' = 5 \<and>
          (\<forall>i < 5. light_id (lights' ! i) = light_id (lights ! i) \<and>
             shadowScissor (renderData (lights' ! i) 0) = slots st1 ! i \<and>
             slots st1 ! i =
               Vec4 (binary64 (real (i div 3) * binary64 (1 / 3)))
                    (binary64 (real (i mod 3) * binary64 (1 / 3)))
                    (binary64 (1 / 3)) (binary64 (1 / 3)))"
    using u a l5 sc ids cell unfolding total by blast
  show "length (slots st1) - 5 = 4" by (simp add: len)
qed

lemma collect_five_spots:
  "collect_lights five_spots [] =
     [spot_light, spot_light\<lparr>light_id := 2\<rparr>, spot_light\<lparr>light_id := 3\<rparr>,
      spot_light\<lparr>light_id := 4\<rparr>, spot_light\<lparr>light_id := 5\<rparr>]"
  by (simp add: five_spots_def spot_light_def hidden_spot_def)

theorem update_assigns_slots_in_order_witness:
  "map light_id five_spots = [1, 0, 2, 3, 4, 5] \<and>
   map light_id (projr (snd (update (constructor True) five_spots []))) = [1, 2, 3, 4, 5] \<and>
   subdivision (fst (update (constructor True) five_spots [])) = 3 \<and>
   length (slots (fst (update (constructor True) five_spots []))) = 9 \<and>
   shadowScissor (renderData (projr (snd (update (constructor True) five_spots [])) ! 0) 0) =
     Vec4 0 0 (binary64 (1 / 3)) (binary64 (1 / 3)) \<and>
   shadowScissor (renderData (projr (snd (update (constructor True) five_spots [])) ! 1) 0) =
     Vec4 0 (binary64 (1 / 3)) (binary64 (1 / 3)) (binary64 (1 / 3)) \<and>
   shadowScissor (renderData (projr (snd (update (constructor True) five_spots [])) ! 2) 0) =
     Vec4 0 (2 * binary64 (1 / 3)) (binary64 (1 / 3)) (binary64 (1 / 3)) \<and>
   shadowScissor (renderData (projr (snd (update (constructor True) five_spots [])) ! 3) 0) =
     Vec4 (binary64 (1 / 3)) 0 (binary64 (1 / 3)) (binary64 (1 / 3)) \<and>
   shadowScissor (renderData (projr (snd (update (constructor True) five_spots [])) ! 4) 0) =
     Vec4 (binary64 (1 / 3)) (binary64 (1 / 3)) (binary64 (1 / 3)) (binary64 (1 / 3))"
proof -
  define lights where
    "lights = filter (\<lambda>light. visibleThisFrame light \<and> castShadows light) five_spots"
  define st1 where "st1 = update_allocate (constructor True) lights"
  have c: "collect_lights five_spots [] = lights"
    by (simp add: lights_def collect_lights_filter)
  have l5: "lights = [spot_light, spot_light\<lparr>light_id := 2\<rparr>, spot_light\<lparr>light_id := 3\<rparr>,
      spot_light\<lparr>light_id := 4\<rparr>, spot_light\<lparr>light_id := 5\<rparr>]"
    using collect_five_spots by (simp add: c)
  have hyp: "slots (constructor True) = stored_slots (subdivision (constructor True)) \<and>
      length lights = 5 \<and> (\<forall>light \<in> set lights. numShadowFaces light = 1)"
    by (simp add: constructor_stored l5 spot_light_def)
  note main = update_assigns_slots_in_order [OF lights_def st1_def, of "[]"]
  from main [THEN conjunct2, THEN mp, OF hyp] obtain st' lights' where
    sub: "subdivision st1 = 3" and len: "length (slots st1) = 9" and
    u: "update (constructor True) five_spots [] = (st', Inr lights')" and
    l': "length lights' = 5" and
    each: "\<forall>i < 5. light_id (lights' ! i) = light_id (lights ! i) \<and>
             shadowScissor (renderData (lights' ! i) 0) = slots st1 ! i \<and>
             slots st1 ! i =
               Vec4 (binary64 (real (i div 3) * binary64 (1 / 3)))
                    (binary64 (real (i mod 3) * binary64 (1 / 3)))
                    (binary64 (1 / 3)) (binary64 (1 / 3))"
    by blast
  have fr: "subdivision (fst (update (constructor True) five_spots [])) = subdivision st1"
    "slots (fst (update (constructor True) five_spots [])) = slots st1"
    using update_state_frame [of "constructor True" five_spots "[]"]
    by (simp_all add: st1_def c)
  have pr: "projr (snd (update (constructor True) five_spots [])) = lights'"
    using u by simp
  have ids0: "map light_id five_spots = [1, 0, 2, 3, 4, 5]"
    by (simp add: five_spots_def spot_light_def hidden_spot_def)
  have five: "length lights = 5" by (simp add: l5)
  have "map light_id lights' = map light_id lights"
    by (rule nth_equalityI) (use each l' five in simp_all)
  then have ids: "map light_id lights' = [1, 2, 3, 4, 5]"
    by (simp add: l5 spot_light_def)
  have e0: "shadowScissor (renderData (lights' ! 0) 0) =
      Vec4 0 0 (binary64 (1 / 3)) (binary64 (1 / 3))"
    using each [THEN spec, of 0] by simp
  have e1: "shadowScissor (renderData (lights' ! 1) 0) =
      Vec4 0 (binary64 (1 / 3)) (binary64 (1 / 3)) (binary64 (1 / 3))"
    using each [THEN spec, of 1] by (simp add: binary64_idem)
  have e2: "shadowScissor (renderData (lights' ! 2) 0) =
      Vec4 0 (2 * binary64 (1 / 3)) (binary64 (1 / 3)) (binary64 (1 / 3))"
    using each [THEN spec, of 2] by (simp add: binary64_double)
  have e3: "shadowScissor (renderData (lights' ! 3) 0) =
      Vec4 (binary64 (1 / 3)) 0 (binary64 (1 / 3)) (binary64 (1 / 3))"
    using each [THEN spec, of 3] by (simp add: binary64_idem)
  have e4: "shadowScissor (renderData (lights' ! 4) 0) =
      Vec4 (binary64 (1 / 3)) (binary64 (1 / 3)) (binary64 (1 / 3)) (binary64 (1 / 3))"
    using each [THEN spec, of 4] by (simp add: binary64_idem)
  show ?thesis
    unfolding fr pr using ids0 ids sub len e0 e1 e2 e3 e4 by blast
qed

text \<open>
  C2, as amended. With at least one collected light, \<open>update\<close> calls \<open>subdivide\<close>
  with the number of collected lights: slot list and subdivision after \<open>update\<close> are
  those of that call. When every collected light has one face, as a spot light has,
  that number is the total face count.
\<close>

theorem update_subdivides_by_light_count:
  assumes "lights = collect_lights spotLights []" and "lights \<noteq> []"
  shows "slots (fst (update st spotLights omniLights)) =
           slots (subdivide (allocateShadowMap st (shadowMapResolution st)) (length lights)) \<and>
         subdivision (fst (update st spotLights omniLights)) = Math_ceil_sqrt (length lights) \<and>
         ((\<forall>light \<in> set lights. numShadowFaces light = 1) \<longrightarrow>
            length lights = sum_list (map numShadowFaces lights))"
proof -
  have al: "update_allocate st lights =
      subdivide (allocateShadowMap st (shadowMapResolution st)) (length lights)"
    using assms(2) by (simp add: update_allocate_def)
  have "sum_list (map numShadowFaces lights) = length lights"
    if "\<forall>light \<in> set lights. numShadowFaces light = 1"
    using map_const_replicate [OF that] by (simp add: sum_list_replicate)
  then show ?thesis
    using update_state_frame [of st spotLights omniLights] al
    by (simp add: assms(1) [symmetric] subdivide_subdivision)
qed

theorem update_subdivides_by_light_count_witness:
  "collect_lights five_spots [] \<noteq> [] \<and>
   subdivision (fst (update (constructor True) five_spots [])) = 3 \<and>
   length (collect_lights five_spots []) = 5 \<and>
   sum_list (map numShadowFaces (collect_lights five_spots [])) = 5"
proof -
  have ne: "collect_lights five_spots [] \<noteq> []" by (simp add: collect_five_spots)
  have single: "\<forall>light \<in> set (collect_lights five_spots []). numShadowFaces light = 1"
    by (simp add: collect_five_spots spot_light_def)
  have len: "length (collect_lights five_spots []) = 5" by (simp add: collect_five_spots)
  note main = update_subdivides_by_light_count [OF refl ne, of "constructor True" "[]"]
  have "subdivision (fst (update (constructor True) five_spots [])) = 3"
    using main by (simp add: len Math_ceil_sqrt_5)
  moreover have "sum_list (map numShadowFaces (collect_lights five_spots [])) = 5"
    using main single len by simp
  ultimately show ?thesis using ne len by blast
qed

text \<open>
  The claim of C2 as stated fails for a collected light of six faces: the grid is
  sized for one light, not for six faces, and the face loop runs out of slots.
\<close>

theorem update_face_count_counterexample:
  "collect_lights [omni_light] [] = [omni_light] \<and>
   sum_list (map numShadowFaces (collect_lights [omni_light] [])) = 6 \<and>
   Math_ceil_sqrt 6 = 3 \<and>
   subdivision (fst (update (constructor True) [omni_light] [])) = 1 \<and>
   length (slots (fst (update (constructor True) [omni_light] []))) = 1 \<and>
   snd (update (constructor True) [omni_light] []) = Inl TypeError_slot_undefined"
proof -
  have c: "collect_lights [omni_light] [] = [omni_light]" by (simp add: omni_light_def)
  have cons: "slots (constructor True) = stored_slots (subdivision (constructor True))"
    by (simp add: constructor_slots constructor_subdivision stored_slots_0)
  have g: "slots (update_allocate (constructor True) [omni_light]) = stored_slots 1"
    "subdivision (update_allocate (constructor True) [omni_light]) = 1"
    using update_allocate_grid [OF cons, of "[omni_light]"] by (simp_all add: Math_ceil_sqrt_1)
  have len: "length (slots (update_allocate (constructor True) [omni_light])) = 1"
    by (simp add: g stored_slots_length)
  have "assign_faces (update_allocate (constructor True) [omni_light])
      (scissorVec_of (update_allocate (constructor True) [omni_light]))
      (omni_light\<lparr>priv_shadowMap := shadowMap (update_allocate (constructor True) [omni_light])\<rparr>)
      6 0 0 = Inl TypeError_slot_undefined"
    by (rule assign_faces_short) (simp_all add: len)
  then have thrown: "snd (update (constructor True) [omni_light] []) = Inl TypeError_slot_undefined"
    by (simp add: update_def Let_def c omni_light_def)
  have fr: "subdivision (fst (update (constructor True) [omni_light] [])) = 1"
    "length (slots (fst (update (constructor True) [omni_light] []))) = 1"
    using update_state_frame [of "constructor True" "[omni_light]" "[]"]
    unfolding c by (simp_all add: g stored_slots_length)
  have s: "sum_list (map numShadowFaces (collect_lights [omni_light] [])) = 6"
    by (simp add: c) (simp add: omni_light_def)
  show ?thesis using c s Math_ceil_sqrt_6 fr thrown by blast
qed

lemma allocateShadowMap_not_null: "shadowMap (allocateShadowMap st resolution) \<noteq> None"
  by (auto simp: allocateShadowMap_def split: option.splits)

lemma allocateShadowMap_replaces:
  "shadowMap (allocateShadowMap st resolution) = shadowMap st \<or>
   shadowMap (allocateShadowMap st resolution) =
     Some \<lparr>texture_width = resolution, cached = False, atlas_id = atlases_created st\<rparr>"
  by (simp add: allocateShadowMap_def ShadowMap_createAtlas_def)

lemma constructor_shadowMap:
  "shadowMap (constructor webgl2) = Some \<lparr>texture_width = 1, cached = False, atlas_id = 0\<rparr>"
  by (simp add: constructor_def allocateUniforms_def allocateShadowMap_def ShadowMap_createAtlas_def)

lemma subdivide_shadowMap: "shadowMap (subdivide st n) = shadowMap st"
  by (simp add: subdivide_def Let_def)

lemma update_allocate_keeps_shadowMap:
  "shadowMap st \<noteq> None \<Longrightarrow> shadowMap (update_allocate st lights) \<noteq> None"
  using allocateShadowMap_not_null [of st "shadowMapResolution st"]
  by (simp add: update_allocate_def subdivide_shadowMap)

lemma reachable_shadowMap: "reachable st \<Longrightarrow> shadowMap st \<noteq> None"
proof (induction rule: reachable.induct)
  case (reach_constructor webgl2)
  show ?case by (simp add: constructor_shadowMap)
next
  case (reach_allocateShadowMap st resolution)
  show ?case by (rule allocateShadowMap_not_null)
next
  case (reach_allocateUniforms st)
  then show ?case by (simp add: allocateUniforms_def)
next
  case (reach_updateUniforms st st')
  then show ?case using updateUniforms_frame [of st st'] by simp
next
  case (reach_subdivide st numLights)
  then show ?case by (simp add: subdivide_shadowMap)
next
  case (reach_update st spotLights omniLights)
  then show ?case
    using update_state_frame [of st spotLights omniLights]
    by (simp add: update_allocate_keeps_shadowMap)
next
  case (reach_resolution st resolution)
  then show ?case by simp
qed

lemma update_allocate_consistent:
  assumes "slots st = stored_slots (subdivision st)"
  shows "slots (update_allocate st lights) = stored_slots (subdivision (update_allocate st lights))"
proof (cases "lights = []")
  case True
  with assms show ?thesis by (simp add: update_allocate_def)
next
  case False
  from update_allocate_grid [OF assms False] show ?thesis by simp
qed

text \<open>
  From the constructor on, the slot list is the one \<open>subdivide\<close> stores for the
  stored subdivision.
\<close>

lemma reachable_stored_consistent: "reachable st \<Longrightarrow> slots st = stored_slots (subdivision st)"
proof (induction rule: reachable.induct)
  case (reach_constructor webgl2)
  show ?case by (simp add: constructor_slots constructor_subdivision stored_slots_0)
next
  case (reach_allocateShadowMap st resolution)
  then show ?case by (simp add: allocateShadowMap_frame)
next
  case (reach_allocateUniforms st)
  then show ?case by (simp add: allocateUniforms_def)
next
  case (reach_updateUniforms st st')
  then show ?case using updateUniforms_frame [of st st'] by simp
next
  case (reach_subdivide st numLights)
  then show ?case by (simp add: subdivide_stored_consistent subdivide_subdivision)
next
  case (reach_update st spotLights omniLights)
  then show ?case
    using update_state_frame [of st spotLights omniLights]
      update_allocate_consistent [of st "collect_lights spotLights []"]
    by simp
next
  case (reach_resolution st resolution)
  then show ?case by simp
qed

lemma assign_faces_error:
  "assign_faces st scissorVec light faceCount face usedCount = Inl e \<Longrightarrow>
     e = TypeError_slot_undefined"
proof (induction st scissorVec light faceCount face usedCount rule: assign_faces.induct)
  case (1 st scissorVec light faceCount face usedCount)
  show ?case
  proof (cases "face < faceCount")
    case False
    with "1.prems" show ?thesis by (simp add: assign_faces_done)
  next
    case True
    show ?thesis
    proof (cases "usedCount < length (slots st)")
      case False
      with True "1.prems" show ?thesis by (simp add: assign_faces_throw)
    next
      case used: True
      with True "1.prems" show ?thesis
        by (intro "1.IH" [OF True used]) (simp add: assign_faces_step)
    qed
  qed
qed

lemma assign_lights_error:
  "assign_lights st scissorVec lights usedCount = Inl e \<Longrightarrow> e = TypeError_slot_undefined"
proof (induction lights arbitrary: usedCount)
  case Nil
  then show ?case by simp
next
  case (Cons light rest)
  then show ?case
    by (auto split: sum.splits prod.splits dest: assign_faces_error)
qed

lemma update_no_null_error:
  assumes "shadowMap st \<noteq> None"
  shows "snd (update st spotLights omniLights) \<noteq> Inl TypeError_shadowMap_null"
proof -
  have "shadowMap (update_allocate st (collect_lights spotLights [])) \<noteq> None"
    using assms by (rule update_allocate_keeps_shadowMap)
  from updateUniforms_ok [OF this] obtain st' where
    "updateUniforms (update_allocate st (collect_lights spotLights [])) = Inr st'" by blast
  then show ?thesis
    by (auto simp: update_def Let_def split: sum.splits prod.splits dest: assign_lights_error)
qed

text \<open>
  C10, as amended. The constructor leaves a placeholder shadow map of resolution 1;
  \<open>allocateShadowMap\<close> keeps the shadow map or replaces it with a newly created one.
  In every state reached from the constructor by calls of \<open>allocateShadowMap\<close>,
  \<open>allocateUniforms\<close>, \<open>updateUniforms\<close>, \<open>subdivide\<close> and \<open>update\<close> and by
  assignments to \<open>shadowMapResolution\<close> (that is, as long as \<open>destroy\<close> is not called)
  the shadow map is not null, \<open>updateUniforms\<close> returns, and no \<open>update\<close> throws on a
  null shadow map.
\<close>

theorem shadowMap_never_null_before_destroy:
  "shadowMap (constructor webgl2) = Some \<lparr>texture_width = 1, cached = False, atlas_id = 0\<rparr> \<and>
   (shadowMap (allocateShadowMap st0 resolution) = shadowMap st0 \<or>
    shadowMap (allocateShadowMap st0 resolution) =
      Some \<lparr>texture_width = resolution, cached = False, atlas_id = atlases_created st0\<rparr>) \<and>
   (reachable st \<longrightarrow>
      shadowMap st \<noteq> None \<and>
      (\<exists>st'. updateUniforms st = Inr st') \<and>
      snd (update st spotLights omniLights) \<noteq> Inl TypeError_shadowMap_null)"
proof (intro conjI impI)
  show "shadowMap (constructor webgl2) = Some \<lparr>texture_width = 1, cached = False, atlas_id = 0\<rparr>"
    by (rule constructor_shadowMap)
  show "shadowMap (allocateShadowMap st0 resolution) = shadowMap st0 \<or>
    shadowMap (allocateShadowMap st0 resolution) =
      Some \<lparr>texture_width = resolution, cached = False, atlas_id = atlases_created st0\<rparr>"
    by (rule allocateShadowMap_replaces)
next
  assume r: "reachable st"
  then show "shadowMap st \<noteq> None" by (rule reachable_shadowMap)
  then show "\<exists>st'. updateUniforms st = Inr st'" by (rule updateUniforms_ok)
  from reachable_shadowMap [OF r]
  show "snd (update st spotLights omniLights) \<noteq> Inl TypeError_shadowMap_null"
    by (rule update_no_null_error)
qed

theorem shadowMap_never_null_before_destroy_witness:
  "reachable (fst (update (constructor True) five_spots [])) \<and>
   shadowMap (fst (update (constructor True) five_spots [])) \<noteq> None \<and>
   snd (update (fst (update (constructor True) five_spots [])) [hidden_spot] []) \<noteq>
     Inl TypeError_shadowMap_null"
proof -
  have r: "reachable (fst (update (constructor True) five_spots []))"
    by (intro reach_update reach_constructor)
  note main = shadowMap_never_null_before_destroy
    [of True "constructor True" 1 "fst (update (constructor True) five_spots [])"
        "[hidden_spot]" "[]"]
  from main r show ?thesis by blast
qed

text \<open>
  The claim of C10 as stated fails after \<open>destroy\<close>: the shadow map is null, and an
  \<open>update\<close> without collected lights throws in \<open>updateUniforms\<close>.
\<close>

theorem shadowMap_null_after_destroy_counterexample:
  "shadowMap (destroy (constructor True)) = None \<and>
   snd (update (destroy (constructor True)) [] []) = Inl TypeError_shadowMap_null"
  by (simp add: update_def Let_def update_allocate_def updateUniforms_def destroy_def
      constructor_shadowMap)

section \<open>Properties of the environment atlas layout\<close>

lemma log2_256: "log 2 256 = 8"
proof -
  have "log 2 (2 ^ 8) = real 8" by (rule log_pow_cancel) simp_all
  then show ?thesis by simp
qed

lemma calcLevels_256: "calcLevels 256 0 = 9"
  by (simp add: calcLevels_def log2_256)

lemma calcLevels_4: "calcLevels 4 0 = 3"
proof -
  have "log 2 (2 ^ 2) = real 2" by (rule log_pow_cancel) simp_all
  then have "log 2 4 = 2" by simp
  then show ?thesis by (simp add: calcLevels_def)
qed

lemma calcLevels_512: "calcLevels 512 0 = 10"
proof -
  have "log 2 (2 ^ 9) = real 9" by (rule log_pow_cancel) simp_all
  then have "log 2 512 = 9" by simp
  then show ?thesis by (simp add: calcLevels_def)
qed

lemma halve_clamped_even:
  "1 \<le> m \<Longrightarrow> halve_clamped (2 * real m) = real m"
  by (simp add: halve_clamped_def)

lemma halve_clamped_pow2 [simp]:
  "halve_clamped (numeral (Num.Bit0 n) * 2 ^ k) = numeral n * 2 ^ k"
proof -
  have "numeral (Num.Bit0 n) * (2::real) ^ k = 2 * real (numeral n * 2 ^ k)"
    by (simp add: numeral_Bit0 [of n])
  moreover have "(1::nat) \<le> numeral n * 2 ^ k"
    by (simp add: Suc_le_eq)
  ultimately show ?thesis
    using halve_clamped_even [of "numeral n * 2 ^ k"] by simp
qed

lemma or_default_size [simp]: "or_default (Some (512 * 2 ^ k :: real)) 512 = 512 * 2 ^ k"
  by (simp add: or_default_def)

lemma calc_levels_6 [simp]: "nat (calcLevels 256 0 - calcLevels 4 0) = 6"
  by (simp add: calcLevels_256 calcLevels_4)

lemma generateAtlas_rects_pow2:
  "map call_rect (snd (generateAtlas (options\<lparr>opt_target := None, opt_size := Some (512 * 2 ^ k)\<rparr>))) =
     map (scale_rect (2 ^ k)) atlas_layout_512"
  by (simp add: generateAtlas_def Let_def mip_loop.simps mip_advance_def
      reflection_loop.simps reflection_advance_def atlas_layout_512_def scale_rect_def
      split: prod.splits)

lemma scale_rect_overlap:
  "0 < c \<Longrightarrow> rect_overlap (scale_rect c a) (scale_rect c b) = rect_overlap a b"
  by (simp add: rect_overlap_def scale_rect_def distrib_left [symmetric])

lemma scale_rect_within:
  "0 < c \<Longrightarrow> rect_within side r \<Longrightarrow> rect_within (c * side) (scale_rect c r)"
  by (simp add: rect_within_def scale_rect_def distrib_left [symmetric])

lemma atlas_layout_512_disjoint:
  "sorted_wrt (\<lambda>a b. \<not> rect_overlap a b) atlas_layout_512"
  by (simp add: atlas_layout_512_def rect_overlap_def)

lemma atlas_layout_512_within:
  "\<forall>r \<in> set atlas_layout_512. rect_within 512 r"
  by (simp add: atlas_layout_512_def rect_within_def)

lemma rect_overlap_sym: "rect_overlap a b = rect_overlap b a"
  by (auto simp: rect_overlap_def)

lemma sorted_wrt_no_overlap_nth:
  assumes "sorted_wrt (\<lambda>a b. \<not> rect_overlap a b) rs" and "a < length rs" and "b < length rs"
    and "a \<noteq> b"
  shows "\<not> rect_overlap (rs ! a) (rs ! b)"
proof (cases "a < b")
  case True
  with assms show ?thesis by (simp add: sorted_wrt_iff_nth_less)
next
  case False
  with assms have "b < a" by simp
  with assms have "\<not> rect_overlap (rs ! b) (rs ! a)" by (simp add: sorted_wrt_iff_nth_less)
  then show ?thesis by (simp add: rect_overlap_sym)
qed

lemma mip_loop_rects:
  "map call_rect (snd (mip_loop src s levels i rect calls)) =
     map call_rect calls @ map (\<lambda>k. (mip_advance ^^ k) rect) [0..<levels - i]"
proof (induction src s levels i rect calls rule: mip_loop.induct)
  case (1 src s levels i rect calls)
  show ?case
  proof (cases "i < levels")
    case False
    then show ?thesis by (subst mip_loop.simps) simp
  next
    case True
    then have n: "levels - i = Suc (levels - (i + 1))" by simp
    have "map call_rect (snd (mip_loop src s levels i rect calls)) =
        map call_rect (snd (mip_loop src s levels (i + 1) (mip_advance rect)
             (calls @ [\<lparr>call_source = src, call_numSamples = 1, call_distribution = None,
                        call_specularPower = None, call_rect = rect, call_seamPixels = s\<rparr>])))"
      using True by (subst mip_loop.simps) simp
    also have "\<dots> = map call_rect (calls @ [\<lparr>call_source = src, call_numSamples = 1,
          call_distribution = None, call_specularPower = None, call_rect = rect,
          call_seamPixels = s\<rparr>]) @
        map (\<lambda>k. (mip_advance ^^ k) (mip_advance rect)) [0..<levels - (i + 1)]"
      using True by (rule "1.IH")
    also have "\<dots> = map call_rect calls @ map (\<lambda>k. (mip_advance ^^ k) rect) [0..<levels - i]"
      unfolding n by (simp add: map_upt_Suc funpow_swap1 del: upt_Suc)
    finally show ?thesis .
  qed
qed

lemma reflection_loop_extends:
  "\<exists>ext. snd (reflection_loop s numSamples distribution i rect calls) = calls @ ext"
proof (induction s numSamples distribution i rect calls rule: reflection_loop.induct)
  case (1 s numSamples distribution i rect calls)
  show ?case
  proof (cases "i < 7")
    case False
    then show ?thesis by (subst reflection_loop.simps) simp
  next
    case True
    from "1.IH" [OF True] obtain ext where
      "snd (reflection_loop s numSamples distribution (i + 1) (reflection_advance rect)
             (calls @ [\<lparr>call_source = 0, call_numSamples = numSamples,
                        call_distribution = Some distribution,
                        call_specularPower = Some (max 1 (drop_bit (i * 2) 2048)),
                        call_rect = rect, call_seamPixels = s\<rparr>])) =
        (calls @ [\<lparr>call_source = 0, call_numSamples = numSamples,
                        call_distribution = Some distribution,
                        call_specularPower = Some (max 1 (drop_bit (i * 2) 2048)),
                        call_rect = rect, call_seamPixels = s\<rparr>]) @ ext"
      by blast
    with True show ?thesis by (subst reflection_loop.simps) simp
  qed
qed

lemma copy_loop_extends:
  "\<exists>ext. snd (copy_loop s numSources i rect calls) = calls @ ext"
proof (induction s numSources i rect calls rule: copy_loop.induct)
  case (1 s numSources i rect calls)
  show ?case
  proof (cases "i < numSources")
    case False
    then show ?thesis by (subst copy_loop.simps) simp
  next
    case True
    from "1.IH" [OF True] obtain ext where
      "snd (copy_loop s numSources (i + 1) (reflection_advance rect)
             (calls @ [\<lparr>call_source = i, call_numSamples = 1, call_distribution = None,
                        call_specularPower = None, call_rect = rect, call_seamPixels = s\<rparr>])) =
        (calls @ [\<lparr>call_source = i, call_numSamples = 1, call_distribution = None,
                        call_specularPower = None, call_rect = rect, call_seamPixels = s\<rparr>]) @ ext"
      by blast
    with True show ?thesis by (subst copy_loop.simps) simp
  qed
qed

lemma mip_loop_length: "length (snd (mip_loop src s levels 0 rect [])) = levels"
proof -
  have "length (map call_rect (snd (mip_loop src s levels 0 rect []))) = levels"
    by (simp only: mip_loop_rects) simp
  then show ?thesis by simp
qed

lemma mip_loop_nth:
  assumes "k < levels"
  shows "call_rect (snd (mip_loop src s levels 0 rect []) ! k) = (mip_advance ^^ k) rect"
proof -
  have "map call_rect (snd (mip_loop src s levels 0 rect [])) ! k = (mip_advance ^^ k) rect"
    using assms by (simp only: mip_loop_rects) simp
  then show ?thesis using assms by (simp add: mip_loop_length)
qed

lemma generateAtlas_calls:
  "snd (generateAtlas options) =
     snd (reflection_loop (atlas_scale options) (or_default (opt_numReflectionSamples options) 1024)
            (case opt_distribution options of None \<Rightarrow> ''ggx'' | Some d \<Rightarrow> if d = [] then ''ggx'' else d)
            1 (Vec4 0 (256 * atlas_scale options) (256 * atlas_scale options) (128 * atlas_scale options))
            (snd (mip_loop 0 (atlas_scale options) 6 0
               (Vec4 0 0 (512 * atlas_scale options) (256 * atlas_scale options)) []))) @
     [\<lparr>call_source = 0, call_numSamples = or_default (opt_numAmbientSamples options) 2048,
       call_distribution = Some ''lambert'', call_specularPower = None,
       call_rect = Vec4 (128 * atlas_scale options) ((256 + 128) * atlas_scale options)
                     (64 * atlas_scale options) (32 * atlas_scale options),
       call_seamPixels = atlas_scale options\<rparr>]"
  by (simp add: generateAtlas_def Let_def split_beta atlas_scale_def)

lemma generateAtlas_mip_nth:
  assumes "k < 6"
  shows "call_rect (snd (generateAtlas options) ! k) =
     (mip_advance ^^ k) (Vec4 0 0 (512 * atlas_scale options) (256 * atlas_scale options))"
proof -
  define calls1 where "calls1 = snd (mip_loop 0 (atlas_scale options) 6 0
               (Vec4 0 0 (512 * atlas_scale options) (256 * atlas_scale options)) [])"
  obtain ext where ext: "snd (reflection_loop (atlas_scale options)
      (or_default (opt_numReflectionSamples options) 1024)
      (case opt_distribution options of None \<Rightarrow> ''ggx'' | Some d \<Rightarrow> if d = [] then ''ggx'' else d)
      1 (Vec4 0 (256 * atlas_scale options) (256 * atlas_scale options) (128 * atlas_scale options))
      calls1) = calls1 @ ext"
    using reflection_loop_extends by blast
  have len: "length calls1 = 6" by (simp add: calls1_def mip_loop_length)
  have "snd (generateAtlas options) ! k = calls1 ! k"
    unfolding generateAtlas_calls calls1_def [symmetric] ext
    using assms len by (simp add: nth_append)
  then show ?thesis
    using assms unfolding calls1_def by (simp add: mip_loop_nth)
qed

lemma calc_levels_10 [simp]: "nat (calcLevels 512 0) = 10"
  by (simp add: calcLevels_512)

lemma generatePrefilteredAtlas_calls:
  assumes "0 < numSources"
  shows "\<exists>result last.
     generatePrefilteredAtlas numSources options =
       Inr (result,
         snd (copy_loop (prefiltered_scale options) numSources 1
            (Vec4 0 (256 * prefiltered_scale options) (256 * prefiltered_scale options)
               (128 * prefiltered_scale options))
            (snd (mip_loop 0 (prefiltered_scale options) 10 0
               (Vec4 0 0 (512 * prefiltered_scale options) (256 * prefiltered_scale options)) []))) @
         [last])"
  using assms
  by (simp add: generatePrefilteredAtlas_def Let_def split_beta prefiltered_scale_def)

lemma generatePrefilteredAtlas_mip_nth:
  assumes "0 < numSources" and "k < 10"
  shows "\<exists>result calls. generatePrefilteredAtlas numSources options = Inr (result, calls) \<and>
     call_rect (calls ! k) =
       (mip_advance ^^ k) (Vec4 0 0 (512 * prefiltered_scale options) (256 * prefiltered_scale options))"
proof -
  define calls1 where "calls1 = snd (mip_loop 0 (prefiltered_scale options) 10 0
               (Vec4 0 0 (512 * prefiltered_scale options) (256 * prefiltered_scale options)) [])"
  obtain ext where ext: "snd (copy_loop (prefiltered_scale options) numSources 1
      (Vec4 0 (256 * prefiltered_scale options) (256 * prefiltered_scale options)
         (128 * prefiltered_scale options)) calls1) = calls1 @ ext"
    using copy_loop_extends by blast
  have len: "length calls1 = 10" by (simp add: calls1_def mip_loop_length)
  from generatePrefilteredAtlas_calls [OF assms(1), of options] obtain result last where
    g: "generatePrefilteredAtlas numSources options = Inr (result, (calls1 @ ext) @ [last])"
    unfolding calls1_def [symmetric] ext by blast
  have "((calls1 @ ext) @ [last]) ! k = calls1 ! k"
    using assms(2) len by (simp add: nth_append)
  then have "call_rect (((calls1 @ ext) @ [last]) ! k) =
      (mip_advance ^^ k) (Vec4 0 0 (512 * prefiltered_scale options) (256 * prefiltered_scale options))"
    using assms(2) unfolding calls1_def by (simp add: mip_loop_nth)
  with g show ?thesis by blast
qed

text \<open>
  C3, as amended. In the mip loops of \<open>generateAtlas\<close> (6 rectangles) and of
  \<open>generatePrefilteredAtlas\<close> (10 rectangles), each rectangle passed to the resampler
  after the first is its predecessor advanced on the diagonal by the predecessor's
  height, the \<open>w\<close> component (\<open>x += w\<close>, \<open>y += w\<close>), with width and height halved, floored
  and clamped to a minimum of 1.
\<close>

theorem mip_pyramid_advances_by_height:
  "(\<forall>i < 5. call_rect (snd (generateAtlas options) ! Suc i) =
      Vec4 (vec_x (call_rect (snd (generateAtlas options) ! i)) +
              vec_w (call_rect (snd (generateAtlas options) ! i)))
           (vec_y (call_rect (snd (generateAtlas options) ! i)) +
              vec_w (call_rect (snd (generateAtlas options) ! i)))
           (max 1 (of_int \<lfloor>vec_z (call_rect (snd (generateAtlas options) ! i)) * 0.5\<rfloor>))
           (max 1 (of_int \<lfloor>vec_w (call_rect (snd (generateAtlas options) ! i)) * 0.5\<rfloor>))) \<and>
   (0 < numSources \<longrightarrow>
      (\<exists>result calls. generatePrefilteredAtlas numSources poptions = Inr (result, calls) \<and>
         (\<forall>i < 9. call_rect (calls ! Suc i) =
            Vec4 (vec_x (call_rect (calls ! i)) + vec_w (call_rect (calls ! i)))
                 (vec_y (call_rect (calls ! i)) + vec_w (call_rect (calls ! i)))
                 (max 1 (of_int \<lfloor>vec_z (call_rect (calls ! i)) * 0.5\<rfloor>))
                 (max 1 (of_int \<lfloor>vec_w (call_rect (calls ! i)) * 0.5\<rfloor>)))))"
proof (intro conjI allI impI)
  fix i :: nat
  assume i: "i < 5"
  then have "i < 6" "Suc i < 6" by simp_all
  then show "call_rect (snd (generateAtlas options) ! Suc i) =
      Vec4 (vec_x (call_rect (snd (generateAtlas options) ! i)) +
              vec_w (call_rect (snd (generateAtlas options) ! i)))
           (vec_y (call_rect (snd (generateAtlas options) ! i)) +
              vec_w (call_rect (snd (generateAtlas options) ! i)))
           (max 1 (of_int \<lfloor>vec_z (call_rect (snd (generateAtlas options) ! i)) * 0.5\<rfloor>))
           (max 1 (of_int \<lfloor>vec_w (call_rect (snd (generateAtlas options) ! i)) * 0.5\<rfloor>))"
    by (simp add: generateAtlas_mip_nth mip_advance_def halve_clamped_def)
next
  assume n: "0 < numSources"
  from generatePrefilteredAtlas_calls [OF n, of poptions] obtain result calls where
    g: "generatePrefilteredAtlas numSources poptions = Inr (result, calls)" by blast
  have step: "call_rect (calls ! Suc i) =
            Vec4 (vec_x (call_rect (calls ! i)) + vec_w (call_rect (calls ! i)))
                 (vec_y (call_rect (calls ! i)) + vec_w (call_rect (calls ! i)))
                 (max 1 (of_int \<lfloor>vec_z (call_rect (calls ! i)) * 0.5\<rfloor>))
                 (max 1 (of_int \<lfloor>vec_w (call_rect (calls ! i)) * 0.5\<rfloor>))"
    if "i < 9" for i
  proof -
    from that have "i < 10" "Suc i < 10" by simp_all
    with generatePrefilteredAtlas_mip_nth [OF n, of _ poptions] g
    have "call_rect (calls ! i) = (mip_advance ^^ i)
        (Vec4 0 0 (512 * prefiltered_scale poptions) (256 * prefiltered_scale poptions))"
      and "call_rect (calls ! Suc i) = (mip_advance ^^ Suc i)
        (Vec4 0 0 (512 * prefiltered_scale poptions) (256 * prefiltered_scale poptions))"
      by fastforce+
    then show ?thesis by (simp add: mip_advance_def halve_clamped_def)
  qed
  with g show "\<exists>result calls. generatePrefilteredAtlas numSources poptions = Inr (result, calls) \<and>
         (\<forall>i < 9. call_rect (calls ! Suc i) =
            Vec4 (vec_x (call_rect (calls ! i)) + vec_w (call_rect (calls ! i)))
                 (vec_y (call_rect (calls ! i)) + vec_w (call_rect (calls ! i)))
                 (max 1 (of_int \<lfloor>vec_z (call_rect (calls ! i)) * 0.5\<rfloor>))
                 (max 1 (of_int \<lfloor>vec_w (call_rect (calls ! i)) * 0.5\<rfloor>)))"
    by blast
qed

lemma generateAtlas_size_512:
  "generateAtlas (options\<lparr>opt_target := None, opt_size := None\<rparr>) =
   generateAtlas (options\<lparr>opt_target := None, opt_size := Some (512 * 2 ^ 0)\<rparr>)"
  by (simp add: generateAtlas_def or_default_def)

lemma scale_rect_one: "scale_rect 1 = (\<lambda>r. r)"
  by (rule ext) (simp add: scale_rect_def)

lemma generateAtlas_default_rects:
  "map call_rect (snd (generateAtlas no_options)) = atlas_layout_512"
proof -
  have "no_options = no_options\<lparr>opt_target := None, opt_size := None\<rparr>"
    by (simp add: no_options_def)
  then have "generateAtlas no_options =
      generateAtlas (no_options\<lparr>opt_target := None, opt_size := Some (512 * 2 ^ 0)\<rparr>)"
    using generateAtlas_size_512 [of no_options] by simp
  then have "map call_rect (snd (generateAtlas no_options)) =
      map (scale_rect (2 ^ 0)) atlas_layout_512"
    by (simp only: generateAtlas_rects_pow2)
  then show ?thesis by (simp add: scale_rect_one)
qed

lemma generateAtlas_default_length: "length (snd (generateAtlas no_options)) = 13"
proof -
  have "length (map call_rect (snd (generateAtlas no_options))) = 13"
    by (simp only: generateAtlas_default_rects) (simp add: atlas_layout_512_def)
  then show ?thesis by simp
qed

lemma generateAtlas_default_nth:
  "k < 13 \<Longrightarrow> call_rect (snd (generateAtlas no_options) ! k) = atlas_layout_512 ! k"
  using generateAtlas_default_rects generateAtlas_default_length
  by (metis nth_map)

theorem mip_pyramid_advances_by_height_witness:
  "call_rect (snd (generateAtlas no_options) ! 0) = Vec4 0 0 512 256 \<and>
   call_rect (snd (generateAtlas no_options) ! Suc 0) = Vec4 256 256 256 128 \<and>
   (\<exists>result calls. generatePrefilteredAtlas 6 no_prefiltered_options = Inr (result, calls) \<and>
      call_rect (calls ! Suc 0) =
        Vec4 (vec_x (call_rect (calls ! 0)) + vec_w (call_rect (calls ! 0)))
             (vec_y (call_rect (calls ! 0)) + vec_w (call_rect (calls ! 0)))
             (max 1 (of_int \<lfloor>vec_z (call_rect (calls ! 0)) * 0.5\<rfloor>))
             (max 1 (of_int \<lfloor>vec_w (call_rect (calls ! 0)) * 0.5\<rfloor>)))"
proof -
  note main = mip_pyramid_advances_by_height [of no_options 6 no_prefiltered_options]
  have r0: "call_rect (snd (generateAtlas no_options) ! 0) = Vec4 0 0 512 256"
    using generateAtlas_default_nth [of 0] by (simp add: atlas_layout_512_def)
  have "call_rect (snd (generateAtlas no_options) ! Suc 0) =
      Vec4 (0 + 256) (0 + 256) (max 1 (of_int \<lfloor>512 * 0.5 :: real\<rfloor>)) (max 1 (of_int \<lfloor>256 * 0.5 :: real\<rfloor>))"
    using main [THEN conjunct1, THEN spec, of 0] unfolding r0 by simp
  then have r1: "call_rect (snd (generateAtlas no_options) ! Suc 0) = Vec4 256 256 256 128"
    by simp
  have six: "(0::nat) < 6" by simp
  from main [THEN conjunct2, THEN mp, OF six] obtain result calls where
    g: "generatePrefilteredAtlas 6 no_prefiltered_options = Inr (result, calls)" and
    steps: "\<forall>i < 9. call_rect (calls ! Suc i) =
            Vec4 (vec_x (call_rect (calls ! i)) + vec_w (call_rect (calls ! i)))
                 (vec_y (call_rect (calls ! i)) + vec_w (call_rect (calls ! i)))
                 (max 1 (of_int \<lfloor>vec_z (call_rect (calls ! i)) * 0.5\<rfloor>))
                 (max 1 (of_int \<lfloor>vec_w (call_rect (calls ! i)) * 0.5\<rfloor>))"
    by blast
  have "call_rect (calls ! Suc 0) =
        Vec4 (vec_x (call_rect (calls ! 0)) + vec_w (call_rect (calls ! 0)))
             (vec_y (call_rect (calls ! 0)) + vec_w (call_rect (calls ! 0)))
             (max 1 (of_int \<lfloor>vec_z (call_rect (calls ! 0)) * 0.5\<rfloor>))
             (max 1 (of_int \<lfloor>vec_w (call_rect (calls ! 0)) * 0.5\<rfloor>))"
    using steps [THEN spec, of 0] by simp
  with g r0 r1 show ?thesis by blast
qed

text \<open>
  The claim of C3 as stated, an advance by the width, fails at the first step of
  the default layout: the second rectangle starts at \<open>(256, 256)\<close>, the height of the
  first, not at \<open>(512, 512)\<close>, its width.
\<close>

theorem mip_pyramid_width_advance_counterexample:
  "call_rect (snd (generateAtlas no_options) ! 0) = Vec4 0 0 512 256 \<and>
   call_rect (snd (generateAtlas no_options) ! 1) = Vec4 256 256 256 128 \<and>
   width_advance (Vec4 0 0 512 256) = Vec4 512 512 256 128 \<and>
   call_rect (snd (generateAtlas no_options) ! 1) \<noteq>
     width_advance (call_rect (snd (generateAtlas no_options) ! 0))"
proof -
  have r0: "call_rect (snd (generateAtlas no_options) ! 0) = Vec4 0 0 512 256"
    using generateAtlas_default_nth [of 0] by (simp add: atlas_layout_512_def)
  have r1: "call_rect (snd (generateAtlas no_options) ! 1) = Vec4 256 256 256 128"
    using generateAtlas_default_nth [of 1] by (simp add: atlas_layout_512_def)
  have w: "width_advance (Vec4 0 0 512 256) = Vec4 512 512 256 128"
    by (simp add: width_advance_def)
  show ?thesis unfolding r0 r1 w by simp
qed

text \<open>
  C4. For an atlas of size \<open>512 * 2\<^sup>k\<close> created by \<open>generateAtlas\<close> (no target given),
  the pass emits 13 rectangles, no two of which overlap, each within the
  \<open>size \<times> size\<close> atlas, that is within the unit square once divided by the size.
\<close>

theorem generateAtlas_rects_disjoint_within:
  "length (snd (generateAtlas (options\<lparr>opt_target := None, opt_size := Some (512 * 2 ^ k)\<rparr>))) = 13 \<and>
   (\<forall>a < 13. \<forall>b < 13. a \<noteq> b \<longrightarrow>
      \<not> rect_overlap
          (call_rect (snd (generateAtlas (options\<lparr>opt_target := None, opt_size := Some (512 * 2 ^ k)\<rparr>)) ! a))
          (call_rect (snd (generateAtlas (options\<lparr>opt_target := None, opt_size := Some (512 * 2 ^ k)\<rparr>)) ! b))) \<and>
   (\<forall>a < 13. rect_within (512 * 2 ^ k)
      (call_rect (snd (generateAtlas (options\<lparr>opt_target := None, opt_size := Some (512 * 2 ^ k)\<rparr>)) ! a))) \<and>
   (\<forall>a < 13. rect_within 1 (scale_rect (1 / (512 * 2 ^ k))
      (call_rect (snd (generateAtlas (options\<lparr>opt_target := None, opt_size := Some (512 * 2 ^ k)\<rparr>)) ! a))))"
proof -
  define calls where
    "calls = snd (generateAtlas (options\<lparr>opt_target := None, opt_size := Some (512 * 2 ^ k)\<rparr>))"
  have rects: "map call_rect calls = map (scale_rect (2 ^ k)) atlas_layout_512"
    unfolding calls_def by (rule generateAtlas_rects_pow2)
  have l13: "length atlas_layout_512 = 13" by (simp add: atlas_layout_512_def)
  have "length (map call_rect calls) = 13" unfolding rects by (simp add: l13)
  then have len: "length calls = 13" by simp
  have nth: "call_rect (calls ! a) = scale_rect (2 ^ k) (atlas_layout_512 ! a)" if "a < 13" for a
  proof -
    have "map call_rect calls ! a = map (scale_rect (2 ^ k)) atlas_layout_512 ! a"
      by (simp only: rects)
    with that show ?thesis by (simp add: len l13)
  qed
  have pos: "(0::real) < 2 ^ k" by simp
  have disj: "\<not> rect_overlap (call_rect (calls ! a)) (call_rect (calls ! b))"
    if "a < 13" "b < 13" "a \<noteq> b" for a b
    using that sorted_wrt_no_overlap_nth [OF atlas_layout_512_disjoint, of a b]
    by (simp add: nth scale_rect_overlap [OF pos] l13)
  have base: "rect_within 512 (atlas_layout_512 ! a)" if "a < 13" for a
    using atlas_layout_512_within that by (simp add: l13)
  have within: "rect_within (512 * 2 ^ k) (call_rect (calls ! a))" if "a < 13" for a
    using scale_rect_within [OF pos base [OF that]] that by (simp add: nth mult.commute)
  have unit: "rect_within 1 (scale_rect (1 / (512 * 2 ^ k)) (call_rect (calls ! a)))"
    if "a < 13" for a
  proof -
    have "(0::real) < 1 / (512 * 2 ^ k)" by simp
    from scale_rect_within [OF this within [OF that]] show ?thesis by simp
  qed
  show ?thesis
    unfolding calls_def [symmetric] using len disj within unit by blast
qed

lemma generateAtlas_parameters:
  "map call_parameters (snd (generateAtlas options)) =
     [(0, 1, None, None), (0, 1, None, None), (0, 1, None, None),
      (0, 1, None, None), (0, 1, None, None), (0, 1, None, None)] @
     map (\<lambda>p. (0, or_default (opt_numReflectionSamples options) 1024,
                Some (case opt_distribution options of None \<Rightarrow> ''ggx''
                      | Some d \<Rightarrow> if d = [] then ''ggx'' else d), Some p))
         [512, 128, 32, 8, 2, 1] @
     [(0, or_default (opt_numAmbientSamples options) 2048, Some ''lambert'', None)]"
  by (simp add: generateAtlas_calls mip_loop.simps reflection_loop.simps call_parameters_def)

theorem generateAtlas_rects_disjoint_within_witness:
  "length (snd (generateAtlas (no_options\<lparr>opt_target := None, opt_size := Some (512 * 2 ^ 1)\<rparr>))) = 13 \<and>
   \<not> rect_overlap
      (call_rect (snd (generateAtlas (no_options\<lparr>opt_target := None, opt_size := Some (512 * 2 ^ 1)\<rparr>)) ! 1))
      (call_rect (snd (generateAtlas (no_options\<lparr>opt_target := None, opt_size := Some (512 * 2 ^ 1)\<rparr>)) ! 6)) \<and>
   rect_within (512 * 2 ^ 1)
      (call_rect (snd (generateAtlas (no_options\<lparr>opt_target := None, opt_size := Some (512 * 2 ^ 1)\<rparr>)) ! 5))"
proof -
  note main = generateAtlas_rects_disjoint_within [where options = no_options and k = 1]
  have a: "length (snd (generateAtlas (no_options\<lparr>opt_target := None, opt_size := Some (512 * 2 ^ 1)\<rparr>))) = 13"
    using main by (rule conjunct1)
  have b: "\<not> rect_overlap
      (call_rect (snd (generateAtlas (no_options\<lparr>opt_target := None, opt_size := Some (512 * 2 ^ 1)\<rparr>)) ! 1))
      (call_rect (snd (generateAtlas (no_options\<lparr>opt_target := None, opt_size := Some (512 * 2 ^ 1)\<rparr>)) ! 6))"
    using main [THEN conjunct2, THEN conjunct1, THEN spec, of 1, THEN mp, THEN spec, of 6, THEN mp,
        THEN mp] by simp
  have c: "rect_within (512 * 2 ^ 1)
      (call_rect (snd (generateAtlas (no_options\<lparr>opt_target := None, opt_size := Some (512 * 2 ^ 1)\<rparr>)) ! 5))"
    using main [THEN conjunct2, THEN conjunct2, THEN conjunct1, THEN spec, of 5, THEN mp] by simp
  from a b c show ?thesis by blast
qed

text \<open>
  C7. \<open>generateAtlas\<close> at size 1024 against size 512, all other options equal and no
  target given: 13 resampler calls each; the rectangle of every call at 1024 is the
  rectangle of the same call at 512 with all four components doubled; source, sample
  count, distribution and specular power of every call are the same.
\<close>

theorem generateAtlas_size_doubling:
  "length (snd (generateAtlas (options\<lparr>opt_target := None, opt_size := Some 512\<rparr>))) = 13 \<and>
   length (snd (generateAtlas (options\<lparr>opt_target := None, opt_size := Some 1024\<rparr>))) = 13 \<and>
   map call_rect (snd (generateAtlas (options\<lparr>opt_target := None, opt_size := Some 1024\<rparr>))) =
     map (\<lambda>c. Vec4 (2 * vec_x (call_rect c)) (2 * vec_y (call_rect c))
                    (2 * vec_z (call_rect c)) (2 * vec_w (call_rect c)))
       (snd (generateAtlas (options\<lparr>opt_target := None, opt_size := Some 512\<rparr>))) \<and>
   map call_numSamples (snd (generateAtlas (options\<lparr>opt_target := None, opt_size := Some 1024\<rparr>))) =
     map call_numSamples (snd (generateAtlas (options\<lparr>opt_target := None, opt_size := Some 512\<rparr>))) \<and>
   map call_parameters (snd (generateAtlas (options\<lparr>opt_target := None, opt_size := Some 1024\<rparr>))) =
     map call_parameters (snd (generateAtlas (options\<lparr>opt_target := None, opt_size := Some 512\<rparr>)))"
proof -
  define small where "small = snd (generateAtlas (options\<lparr>opt_target := None, opt_size := Some 512\<rparr>))"
  define large where "large = snd (generateAtlas (options\<lparr>opt_target := None, opt_size := Some 1024\<rparr>))"
  have s0: "Some (512 :: real) = Some (512 * 2 ^ 0)" and s1: "Some (1024 :: real) = Some (512 * 2 ^ 1)"
    by simp_all
  have rs: "map call_rect small = map (scale_rect (2 ^ 0)) atlas_layout_512"
    unfolding small_def s0 by (rule generateAtlas_rects_pow2)
  have rl: "map call_rect large = map (scale_rect (2 ^ 1)) atlas_layout_512"
    unfolding large_def s1 by (rule generateAtlas_rects_pow2)
  have l13: "length atlas_layout_512 = 13" by (simp add: atlas_layout_512_def)
  have "length (map call_rect small) = 13" unfolding rs by (simp add: l13)
  then have ls: "length small = 13" by simp
  have "length (map call_rect large) = 13" unfolding rl by (simp add: l13)
  then have ll: "length large = 13" by simp
  have "map call_rect large = map (scale_rect 2) (map call_rect small)"
    unfolding rs rl by (simp add: scale_rect_one)
  then have rects: "map call_rect large =
     map (\<lambda>c. Vec4 (2 * vec_x (call_rect c)) (2 * vec_y (call_rect c))
                    (2 * vec_z (call_rect c)) (2 * vec_w (call_rect c))) small"
    by (simp add: scale_rect_def comp_def)
  have params: "map call_parameters large = map call_parameters small"
    unfolding large_def small_def by (simp only: generateAtlas_parameters) simp
  have "map (\<lambda>p. fst (snd p)) (map call_parameters large) =
      map (\<lambda>p. fst (snd p)) (map call_parameters small)"
    by (simp only: params)
  then have samples: "map call_numSamples large = map call_numSamples small"
    by (simp add: call_parameters_def comp_def)
  show ?thesis
    unfolding small_def [symmetric] large_def [symmetric]
    using ls ll rects samples params by blast
qed

end
